theory Spec2Isabelle
  imports Main "HOL-Library.Log_Nat"
begin

section \<open>Python values the layout engine computes with\<close>

text \<open>
  The exceptions the modelled functions can raise. A function that can raise returns
  \<open>py_exception + 'a\<close>, with \<open>Inl\<close> for the exception.
\<close>

datatype py_exception = IndexError | TypeError | OverflowError | ValueError | ZeroDivisionError

fun exception_name :: "py_exception \<Rightarrow> string" where
  "exception_name IndexError = ''IndexError''"
| "exception_name TypeError = ''TypeError''"
| "exception_name OverflowError = ''OverflowError''"
| "exception_name ValueError = ''ValueError''"
| "exception_name ZeroDivisionError = ''ZeroDivisionError''"

definition bindE :: "py_exception + 'a \<Rightarrow> ('a \<Rightarrow> py_exception + 'b) \<Rightarrow> py_exception + 'b" where
  "bindE m f = (case m of Inl e \<Rightarrow> Inl e | Inr v \<Rightarrow> f v)"

subsection \<open>Python floats: IEEE 754 binary64, round to nearest, ties to even\<close>

text \<open>
  \<open>mirror_coordinate\<close> divides with \<open>/\<close>, which in Python 3 is true division and yields a
  float, and converts back with \<open>int(...)\<close>. A finite float is modelled by the rational
  it denotes; every operation rounds its exact result to the nearest double.
\<close>

datatype pyfloat = Finite rat | PosInf | NegInf | NaN

definition pow2 :: "int \<Rightarrow> rat" where
  "pow2 e = (if 0 \<le> e then 2 ^ nat e else 1 / 2 ^ nat (- e))"

text \<open>\<open>floor_log2 q\<close> is the binary exponent of a positive rational: \<open>2^e \<le> q < 2^(e+1)\<close>.\<close>

definition floor_log2 :: "rat \<Rightarrow> int" where
  "floor_log2 q = (if 1 \<le> q then bitlen \<lfloor>q\<rfloor> - 1 else - bitlen (\<lceil>1 / q\<rceil> - 1))"

definition round_half_even :: "rat \<Rightarrow> int" where
  "round_half_even q =
     (let f = \<lfloor>q\<rfloor>; d = q - of_int f
      in if d < 1 / 2 then f else if 1 / 2 < d then f + 1 else if even f then f else f + 1)"

text \<open>
  53 significant bits, exponents from -1022 (below that the spacing stays that of the
  subnormals) to 1023; a result that rounds to \<open>2^1024\<close> or beyond is infinite.
\<close>

definition round_double :: "rat \<Rightarrow> pyfloat" where
  "round_double q =
     (if q = 0 then Finite 0
      else let e = max (floor_log2 \<bar>q\<bar>) (- 1022);
               ulp = pow2 (e - 52);
               r = of_int (round_half_even (q / ulp)) * ulp
           in if 2 ^ 1024 \<le> \<bar>r\<bar> then (if 0 < q then PosInf else NegInf) else Finite r)"

text \<open>An int operand of a float operation is converted first; too large an int raises.\<close>

definition int_to_float :: "int \<Rightarrow> py_exception + pyfloat" where
  "int_to_float n =
     (case round_double (of_int n) of Finite q \<Rightarrow> Inr (Finite q) | _ \<Rightarrow> Inl OverflowError)"

text \<open>\<open>a / b\<close> on two ints: the exact quotient, correctly rounded; it raises rather than
  return an infinity.\<close>

definition int_truediv :: "int \<Rightarrow> int \<Rightarrow> py_exception + pyfloat" where
  "int_truediv a b =
     (if b = 0 then Inl ZeroDivisionError
      else case round_double (of_int a / of_int b) of
             Finite q \<Rightarrow> Inr (Finite q)
           | _ \<Rightarrow> Inl OverflowError)"

fun float_mul :: "pyfloat \<Rightarrow> pyfloat \<Rightarrow> pyfloat" where
  "float_mul (Finite a) (Finite b) = round_double (a * b)"
| "float_mul NaN _ = NaN"
| "float_mul _ NaN = NaN"
| "float_mul (Finite a) PosInf = (if a = 0 then NaN else if 0 < a then PosInf else NegInf)"
| "float_mul (Finite a) NegInf = (if a = 0 then NaN else if 0 < a then NegInf else PosInf)"
| "float_mul PosInf (Finite b) = (if b = 0 then NaN else if 0 < b then PosInf else NegInf)"
| "float_mul NegInf (Finite b) = (if b = 0 then NaN else if 0 < b then NegInf else PosInf)"
| "float_mul PosInf PosInf = PosInf"
| "float_mul NegInf NegInf = PosInf"
| "float_mul PosInf NegInf = NegInf"
| "float_mul NegInf PosInf = NegInf"

fun float_sub :: "pyfloat \<Rightarrow> pyfloat \<Rightarrow> pyfloat" where
  "float_sub (Finite a) (Finite b) = round_double (a - b)"
| "float_sub NaN _ = NaN"
| "float_sub _ NaN = NaN"
| "float_sub PosInf PosInf = NaN"
| "float_sub NegInf NegInf = NaN"
| "float_sub PosInf _ = PosInf"
| "float_sub NegInf _ = NegInf"
| "float_sub (Finite a) PosInf = NegInf"
| "float_sub (Finite a) NegInf = PosInf"

text \<open>\<open>int(f)\<close> truncates towards zero and raises on an infinity or a NaN.\<close>

fun float_to_int :: "pyfloat \<Rightarrow> py_exception + int" where
  "float_to_int (Finite q) = Inr (if 0 \<le> q then \<lfloor>q\<rfloor> else \<lceil>q\<rceil>)"
| "float_to_int PosInf = Inl OverflowError"
| "float_to_int NegInf = Inl OverflowError"
| "float_to_int NaN = Inl ValueError"

section \<open>mapper_utils: data\<close>

record Coord =
  x :: int
  y :: int
  width :: "int option"
  height :: "int option"
  hero_order :: "int option"
  ability_order :: "int option"
  is_ultimate :: "bool option"

text \<open>The dictionary \<open>{'x', 'y', 'width', 'height'}\<close> that the corner conversions return.\<close>

record rect =
  rect_x :: int
  rect_y :: int
  rect_width :: int
  rect_height :: int

text \<open>\<open>Coord(**dims)\<close>: the four keys become fields, the other fields keep their default None.\<close>

definition Coord_of :: "rect \<Rightarrow> Coord" where
  "Coord_of d = \<lparr>x = rect_x d, y = rect_y d, width = Some (rect_width d),
     height = Some (rect_height d), hero_order = None, ability_order = None,
     is_ultimate = None\<rparr>"

section \<open>mapper_utils: corner conversion and mirroring\<close>

definition calculate_from_bottom_left_top_right :: "int \<times> int \<Rightarrow> int \<times> int \<Rightarrow> rect" where
  "calculate_from_bottom_left_top_right bl tr =
     \<lparr>rect_x = fst bl, rect_y = snd tr, rect_width = fst tr - fst bl,
      rect_height = snd bl - snd tr\<rparr>"

definition calculate_from_top_left_bottom_right :: "int \<times> int \<Rightarrow> int \<times> int \<Rightarrow> rect" where
  "calculate_from_top_left_bottom_right top_left br =
     \<lparr>rect_x = fst top_left, rect_y = snd top_left, rect_width = fst br - fst top_left,
      rect_height = snd br - snd top_left\<rparr>"

text \<open>
  \<open>screen_center = screen_width / 2; mirrored_x = int(2 * screen_center - x - width)\<close>.
  The width arrives from \<open>elem.width\<close>, which may be None; subtracting None raises
  TypeError. The height is not used.
\<close>

definition mirror_coordinate ::
  "int \<Rightarrow> int \<Rightarrow> int option \<Rightarrow> int option \<Rightarrow> int \<Rightarrow> py_exception + (int \<times> int)" where
  "mirror_coordinate x0 y0 width0 height0 screen_width =
     bindE (int_truediv screen_width 2) (\<lambda>screen_center.
     bindE (int_to_float 2) (\<lambda>two.
     bindE (int_to_float x0) (\<lambda>fx.
     bindE (case width0 of None \<Rightarrow> Inl TypeError | Some w \<Rightarrow> int_to_float w) (\<lambda>fw.
     bindE (float_to_int (float_sub (float_sub (float_mul two screen_center) fx) fw))
       (\<lambda>mirrored_x. Inr (mirrored_x, y0))))))"

text \<open>The shared size \<open>{'width', 'height'}\<close> of a category whose regions store none.\<close>

record params =
  params_width :: int
  params_height :: int

definition calculate_hero_spacing :: "rect \<Rightarrow> rect \<Rightarrow> int" where
  "calculate_hero_spacing hero0 hero1 = rect_y hero1 - rect_y hero0"

definition calculate_ability_spacing :: "rect \<Rightarrow> rect \<Rightarrow> int" where
  "calculate_ability_spacing ability1 ability2 = rect_x ability2 - rect_x ability1"

section \<open>mapper_utils: generation of the left side\<close>

text \<open>Heroes 0 and 1 are the two clicked boxes; heroes 2, 3 and 4 continue below hero 1
  in hero 0's column. The parameter \<open>heroes_params\<close> is not read.\<close>

definition generate_heroes :: "rect \<Rightarrow> rect \<Rightarrow> params \<Rightarrow> Coord list" where
  "generate_heroes hero0 hero1 heroes_params =
     (let spacing = calculate_hero_spacing hero0 hero1
      in map (\<lambda>(i, hero). \<lparr>x = rect_x hero, y = rect_y hero, width = None, height = None,
                hero_order = Some (int i), ability_order = None, is_ultimate = None\<rparr>)
             (enumerate 0 [hero0, hero1])
         @ map (\<lambda>i. \<lparr>x = rect_x hero0, y = rect_y hero1 + (i - 1) * spacing, width = None,
                  height = None, hero_order = Some i, ability_order = None,
                  is_ultimate = None\<rparr>)
               [2, 3, 4])"

text \<open>\<open>heroes[0]\<close> raises IndexError on an empty list; the four slots of hero 0 are then
  repeated for every hero, shifted by the hero's vertical distance from hero 0.\<close>

definition generate_selected_abilities ::
  "rect \<Rightarrow> rect \<Rightarrow> Coord list \<Rightarrow> params \<Rightarrow> py_exception + Coord list" where
  "generate_selected_abilities ability1 ability2 heroes selected_params =
     (let spacing = calculate_ability_spacing ability1 ability2;
          hero0_slots =
            map (\<lambda>slot_idx. \<lparr>x = rect_x ability1 + int slot_idx * spacing, y = rect_y ability1,
                   width = None, height = None, hero_order = Some 0, ability_order = None,
                   is_ultimate = Some (slot_idx = 3)\<rparr>)
                [0..<4]
      in case heroes of
           [] \<Rightarrow> Inl IndexError
         | first_hero # _ \<Rightarrow>
             (let hero0_y = y first_hero
              in Inr (concat (map (\<lambda>hero.
                   let y_offset = y hero - hero0_y
                   in map (\<lambda>slot_idx. \<lparr>x = x (hero0_slots ! slot_idx),
                             y = y (hero0_slots ! slot_idx) + y_offset, width = None,
                             height = None, hero_order = hero_order hero,
                             ability_order = None, is_ultimate = Some (slot_idx = 3)\<rparr>)
                          [0..<4]) heroes))))"

section \<open>mapper_utils: mirroring a category\<close>

definition hero_order_offset :: "(string \<times> int) list" where
  "hero_order_offset =
     [(''heroes'', 5), (''models'', 5), (''selected_abilities'', 5), (''ultimates'', 0),
      (''standards'', 0)]"

text \<open>A \<open>for\<close> loop that appends one result per element; the first exception ends it.\<close>

fun mapE :: "('a \<Rightarrow> py_exception + 'b) \<Rightarrow> 'a list \<Rightarrow> py_exception + 'b list" where
  "mapE f [] = Inr []"
| "mapE f (a # as) = bindE (f a) (\<lambda>b. bindE (mapE f as) (\<lambda>bs. Inr (b # bs)))"

text \<open>The body of the loop of \<open>mirror_elements_to_right\<close>.\<close>

definition mirror_element ::
  "int \<Rightarrow> string \<Rightarrow> bool \<Rightarrow> int \<Rightarrow> int \<Rightarrow> int \<Rightarrow> Coord \<Rightarrow> py_exception + Coord" where
  "mirror_element screen_width element_type has_dimensions element_width element_height
       offset elem =
     (let width1 = (if has_dimensions then width elem else Some element_width);
          height1 = (if has_dimensions then height elem else Some element_height)
      in bindE (mirror_coordinate (x elem) (y elem) width1 height1 screen_width)
           (\<lambda>(mirrored_x, mirrored_y).
              let new_hero_order =
                    (case hero_order elem of
                       Some h \<Rightarrow>
                         Some (if h = 10 then 11
                               else if element_type \<in> set [''heroes'', ''models'', ''selected_abilities'']
                                    then h + offset
                                    else h)
                     | None \<Rightarrow> None)
              in Inr \<lparr>x = mirrored_x, y = mirrored_y,
                      width = (if has_dimensions then width1 else None),
                      height = (if has_dimensions then height1 else None),
                      hero_order = new_hero_order, ability_order = ability_order elem,
                      is_ultimate = is_ultimate elem\<rparr>))"

definition mirror_elements_to_right ::
  "Coord list \<Rightarrow> int \<Rightarrow> string \<Rightarrow> bool \<Rightarrow> int \<Rightarrow> int \<Rightarrow> py_exception + Coord list" where
  "mirror_elements_to_right left_elements screen_width element_type has_dimensions
       element_width element_height =
     (let offset = (case map_of hero_order_offset element_type of Some v \<Rightarrow> v | None \<Rightarrow> 0)
      in mapE (mirror_element screen_width element_type has_dimensions element_width
                 element_height offset) left_elements)"

section \<open>mapper_utils: identity stamping\<close>

text \<open>\<open>for i, c in enumerate(cs): c.hero_order = orders[i]\<close>, from index \<open>i\<close> on: a list
  longer than the table raises IndexError.\<close>

fun stamp_hero_orders :: "int list \<Rightarrow> nat \<Rightarrow> Coord list \<Rightarrow> py_exception + Coord list" where
  "stamp_hero_orders orders i [] = Inr []"
| "stamp_hero_orders orders i (c # cs) =
     (if i < length orders
      then bindE (stamp_hero_orders orders (Suc i) cs)
             (\<lambda>rest. Inr (c\<lparr>hero_order := Some (orders ! i)\<rparr> # rest))
      else Inl IndexError)"

definition apply_ultimate_hero_orders :: "Coord list \<Rightarrow> bool \<Rightarrow> py_exception + Coord list" where
  "apply_ultimate_hero_orders ultimates is_left_side =
     (let orders = (if is_left_side then [0, 1, 2, 3, 4, 10] else [7, 6, 5, 11, 9, 8])
      in stamp_hero_orders orders 0 ultimates)"

text \<open>A \<open>for\<close> loop over a state; the first exception ends it.\<close>

fun foldE :: "('a \<Rightarrow> 's \<Rightarrow> py_exception + 's) \<Rightarrow> 'a list \<Rightarrow> 's \<Rightarrow> py_exception + 's" where
  "foldE f [] s = Inr s"
| "foldE f (a # as) s = bindE (f a s) (foldE f as)"

text \<open>The body of the inner loop of \<open>apply_standard_hero_orders\<close>; \<open>standards[idx]\<close> raises
  IndexError on a list of fewer than 18 elements.\<close>

definition stamp_standard :: "int list \<Rightarrow> nat \<Rightarrow> nat \<Rightarrow> Coord list \<Rightarrow> py_exception + Coord list" where
  "stamp_standard hero_orders row_idx col_idx standards =
     (let idx = row_idx * 3 + col_idx
      in if idx < length standards
         then Inr (standards[idx := (standards ! idx)
                     \<lparr>hero_order := Some (hero_orders ! row_idx),
                      ability_order := Some (int col_idx + 1)\<rparr>])
         else Inl IndexError)"

definition apply_standard_hero_orders :: "Coord list \<Rightarrow> bool \<Rightarrow> py_exception + Coord list" where
  "apply_standard_hero_orders standards is_left_side =
     (let hero_orders = (if is_left_side then [0, 1, 2, 3, 4, 10] else [5, 6, 7, 8, 9, 11])
      in foldE (\<lambda>row_idx. foldE (stamp_standard hero_orders row_idx) [0..<3]) [0..<6]
           standards)"

section \<open>mapper_utils: validation\<close>

text \<open>
  The coordinate dictionary. A field is None when the key is absent. A region of a list is
  the dictionary \<open>to_dict\<close> builds from a \<open>Coord\<close>, which has a key exactly for the fields
  that are not None, so a region dictionary is kept as the \<open>Coord\<close> it came from and
  \<open>item.get('width', 0)\<close> reads \<open>width\<close> with the default 0.
\<close>

record coords =
  heroes_params :: "params option"
  selected_abilities_params :: "params option"
  ultimate_slots_coords :: "Coord list option"
  standard_slots_coords :: "Coord list option"
  models_coords :: "Coord list option"
  heroes_coords :: "Coord list option"
  selected_abilities_coords :: "Coord list option"

definition to_dict :: "Coord \<Rightarrow> Coord" where
  "to_dict c = c"

text \<open>\<open>coords[key]\<close> for a key that holds a list of regions, and for one that holds a size.\<close>

definition regions_of :: "coords \<Rightarrow> string \<Rightarrow> Coord list option" where
  "regions_of cd key =
     (if key = ''ultimate_slots_coords'' then ultimate_slots_coords cd
      else if key = ''standard_slots_coords'' then standard_slots_coords cd
      else if key = ''models_coords'' then models_coords cd
      else if key = ''heroes_coords'' then heroes_coords cd
      else if key = ''selected_abilities_coords'' then selected_abilities_coords cd
      else None)"

definition params_of :: "coords \<Rightarrow> string \<Rightarrow> params option" where
  "params_of cd key =
     (if key = ''heroes_params'' then heroes_params cd
      else if key = ''selected_abilities_params'' then selected_abilities_params cd
      else None)"

text \<open>
  The entries of the report. Each constructor stands for one message format of the source
  and carries the values the message prints:
  \<^item> \<open>NegativeCoordinatesXY c i px py\<close>: \<open>"{c}[{i}]: Negative coordinates (x={px}, y={py})"\<close>;
  \<^item> \<open>NegativeCoordinates c i\<close>: \<open>"{c}[{i}]: Negative coordinates"\<close>;
  \<^item> \<open>ExtendsBeyondWidth c i h\<close>: \<open>"{c}[{i}] hero_order={h}: Extends beyond width"\<close>, with
    \<open>h\<close> None where the message prints \<open>?\<close>;
  \<^item> \<open>ExtendsBeyondHeight c i h\<close>: the same for the height;
  \<^item> \<open>MissingCategory c\<close>: \<open>"Missing category: {c}"\<close>;
  \<^item> \<open>CountMismatch c e a\<close>: \<open>"{c}: Expected {e}, got {a}"\<close> in the errors;
  \<^item> \<open>CountWarning c es a\<close>: \<open>"{c}: Expected {es}, got {a}"\<close> in the warnings.
\<close>

datatype verror =
    NegativeCoordinatesXY string nat int int
  | NegativeCoordinates string nat
  | ExtendsBeyondWidth string nat "int option"
  | ExtendsBeyondHeight string nat "int option"
  | MissingCategory string
  | CountMismatch string nat nat

datatype vwarning = CountWarning string "nat list" nat

record validation =
  passed :: bool
  errors :: "verror list"
  warnings :: "vwarning list"

text \<open>\<open>validation['errors'].append(e); validation['passed'] = False\<close>.\<close>

definition add_error :: "verror \<Rightarrow> validation \<Rightarrow> validation" where
  "add_error e v = v\<lparr>errors := errors v @ [e], passed := False\<rparr>"

definition add_warning :: "vwarning \<Rightarrow> validation \<Rightarrow> validation" where
  "add_warning w v = v\<lparr>warnings := warnings v @ [w]\<rparr>"

definition categories_with_dims :: "string list" where
  "categories_with_dims = [''ultimate_slots_coords'', ''standard_slots_coords'', ''models_coords'']"

definition categories_with_params :: "(string \<times> string) list" where
  "categories_with_params =
     [(''heroes_coords'', ''heroes_params''),
      (''selected_abilities_coords'', ''selected_abilities_params'')]"

text \<open>An expected count is an int or a list of admissible ints (\<open>isinstance(expected, list)\<close>).\<close>

datatype expected = ExpectedInt nat | ExpectedList "nat list"

definition expected_counts :: "(string \<times> expected) list" where
  "expected_counts =
     [(''ultimate_slots_coords'', ExpectedInt 12),
      (''standard_slots_coords'', ExpectedInt 36),
      (''heroes_coords'', ExpectedInt 10),
      (''selected_abilities_coords'', ExpectedInt 40),
      (''models_coords'', ExpectedInt 12)]"

text \<open>The three checks on one region of a category that stores its own size.\<close>

definition check_item_dims :: "string \<Rightarrow> int \<Rightarrow> int \<Rightarrow> nat \<times> Coord \<Rightarrow> validation \<Rightarrow> validation" where
  "check_item_dims category screen_w screen_h = (\<lambda>(i, item) v.
     (let item_width = (case width item of Some w \<Rightarrow> w | None \<Rightarrow> 0);
          item_height = (case height item of Some h \<Rightarrow> h | None \<Rightarrow> 0);
          v1 = (if x item < 0 \<or> y item < 0
                then add_error (NegativeCoordinatesXY category i (x item) (y item)) v else v);
          v2 = (if x item + item_width > screen_w
                then add_error (ExtendsBeyondWidth category i (hero_order item)) v1 else v1)
      in if y item + item_height > screen_h
         then add_error (ExtendsBeyondHeight category i (hero_order item)) v2 else v2))"

text \<open>The three checks on one region of a category whose size is the shared one.\<close>

definition check_item_params :: "string \<Rightarrow> params \<Rightarrow> int \<Rightarrow> int \<Rightarrow> nat \<times> Coord \<Rightarrow> validation \<Rightarrow> validation" where
  "check_item_params category ps screen_w screen_h = (\<lambda>(i, item) v.
     (let v1 = (if x item < 0 \<or> y item < 0
                then add_error (NegativeCoordinates category i) v else v);
          v2 = (if x item + params_width ps > screen_w
                then add_error (ExtendsBeyondWidth category i (hero_order item)) v1 else v1)
      in if y item + params_height ps > screen_h
         then add_error (ExtendsBeyondHeight category i (hero_order item)) v2 else v2))"

definition check_dims_category :: "coords \<Rightarrow> int \<Rightarrow> int \<Rightarrow> string \<Rightarrow> validation \<Rightarrow> validation" where
  "check_dims_category cd screen_w screen_h category v =
     (case regions_of cd category of
        None \<Rightarrow> v
      | Some items \<Rightarrow> fold (check_item_dims category screen_w screen_h) (enumerate 0 items) v)"

definition check_params_category ::
  "coords \<Rightarrow> int \<Rightarrow> int \<Rightarrow> string \<times> string \<Rightarrow> validation \<Rightarrow> validation" where
  "check_params_category cd screen_w screen_h = (\<lambda>(category, params_key) v.
     (case regions_of cd category of
        None \<Rightarrow> v
      | Some items \<Rightarrow>
          (case params_of cd params_key of
             None \<Rightarrow> v
           | Some ps \<Rightarrow>
               fold (check_item_params category ps screen_w screen_h) (enumerate 0 items) v)))"

definition check_count :: "coords \<Rightarrow> string \<times> expected \<Rightarrow> validation \<Rightarrow> validation" where
  "check_count cd = (\<lambda>(category, expd) v.
     (case regions_of cd category of
        None \<Rightarrow> add_error (MissingCategory category) v
      | Some items \<Rightarrow>
          (let actual = length items
           in case expd of
                ExpectedList es \<Rightarrow>
                  (if actual \<notin> set es then add_warning (CountWarning category es actual) v
                   else v)
              | ExpectedInt e \<Rightarrow>
                  (if actual \<noteq> e then add_error (CountMismatch category e actual) v else v))))"

definition validate_coordinates :: "coords \<Rightarrow> int \<Rightarrow> int \<Rightarrow> validation" where
  "validate_coordinates cd screen_w screen_h =
     (let v0 = \<lparr>passed = True, errors = [], warnings = []\<rparr>;
          v1 = fold (check_dims_category cd screen_w screen_h) categories_with_dims v0;
          v2 = fold (check_params_category cd screen_w screen_h) categories_with_params v1
      in fold (check_count cd) expected_counts v2)"

section \<open>complete_manual_mapper: from the clicked points to the coordinate dictionary\<close>

text \<open>\<open>points[idx]\<close> raises IndexError beyond the end of the list.\<close>

definition get_point :: "(int \<times> int) list \<Rightarrow> nat \<Rightarrow> py_exception + (int \<times> int)" where
  "get_point points idx = (if idx < length points then Inr (points ! idx) else Inl IndexError)"

text \<open>One parsing loop: \<open>n\<close> rectangles from two consecutive points each, starting at
  \<open>idx\<close>, converted by \<open>conv\<close>.\<close>

fun parse_slots ::
  "(int \<times> int \<Rightarrow> int \<times> int \<Rightarrow> rect) \<Rightarrow> (int \<times> int) list \<Rightarrow> nat \<Rightarrow> nat \<Rightarrow> py_exception + Coord list" where
  "parse_slots conv points idx 0 = Inr []"
| "parse_slots conv points idx (Suc n) =
     bindE (get_point points idx) (\<lambda>p1.
     bindE (get_point points (idx + 1)) (\<lambda>p2.
     bindE (parse_slots conv points (idx + 2) n) (\<lambda>rest.
     Inr (Coord_of (conv p1 p2) # rest))))"

definition calculate_coordinates_from_clicks :: "(int \<times> int) list \<Rightarrow> int \<Rightarrow> py_exception + coords" where
  "calculate_coordinates_from_clicks points screen_width =
     bindE (parse_slots calculate_from_bottom_left_top_right points 0 6) (\<lambda>left_ultimates.
     bindE (parse_slots calculate_from_top_left_bottom_right points 12 18) (\<lambda>left_standards.
     bindE (parse_slots calculate_from_top_left_bottom_right points 48 6) (\<lambda>left_models.
     bindE (get_point points 60) (\<lambda>hero0_tl.
     bindE (get_point points 61) (\<lambda>hero0_br.
     let hero0_dims = calculate_from_top_left_bottom_right hero0_tl hero0_br in
     bindE (get_point points 62) (\<lambda>hero1_tl.
     bindE (get_point points 63) (\<lambda>hero1_br.
     let hero1_dims = calculate_from_top_left_bottom_right hero1_tl hero1_br in
     bindE (get_point points 64) (\<lambda>ability1_tl.
     bindE (get_point points 65) (\<lambda>ability1_br.
     let ability1_dims = calculate_from_top_left_bottom_right ability1_tl ability1_br in
     bindE (get_point points 66) (\<lambda>ability2_tl.
     bindE (get_point points 67) (\<lambda>ability2_br.
     let ability2_dims = calculate_from_top_left_bottom_right ability2_tl ability2_br;
         hp = \<lparr>params_width = rect_width hero0_dims, params_height = rect_height hero0_dims\<rparr>;
         sp = \<lparr>params_width = rect_width ability1_dims,
               params_height = rect_height ability1_dims\<rparr>;
         left_heroes = generate_heroes hero0_dims hero1_dims hp in
     bindE (generate_selected_abilities ability1_dims ability2_dims left_heroes sp)
       (\<lambda>left_selected.
     bindE (apply_ultimate_hero_orders left_ultimates True) (\<lambda>left_ultimates.
     bindE (apply_standard_hero_orders left_standards True) (\<lambda>left_standards.
     bindE (stamp_hero_orders [0, 1, 2, 3, 4, 10] 0 left_models) (\<lambda>left_models.
     bindE (mirror_elements_to_right left_ultimates screen_width ''ultimates'' True 0 0)
       (\<lambda>right_ultimates.
     bindE (apply_ultimate_hero_orders right_ultimates False) (\<lambda>right_ultimates.
     bindE (mirror_elements_to_right left_standards screen_width ''standards'' True 0 0)
       (\<lambda>right_standards.
     bindE (apply_standard_hero_orders right_standards False) (\<lambda>right_standards.
     bindE (mirror_elements_to_right left_models screen_width ''models'' True 0 0)
       (\<lambda>right_models.
     bindE (mirror_elements_to_right left_heroes screen_width ''heroes'' False
              (params_width hp) (params_height hp)) (\<lambda>right_heroes.
     bindE (mirror_elements_to_right left_selected screen_width ''selected_abilities'' False
              (params_width sp) (params_height sp)) (\<lambda>right_selected.
     Inr \<lparr>heroes_params = Some hp, selected_abilities_params = Some sp,
          ultimate_slots_coords = Some (map to_dict (left_ultimates @ right_ultimates)),
          standard_slots_coords = Some (map to_dict (left_standards @ right_standards)),
          models_coords = Some (map to_dict (left_models @ right_models)),
          heroes_coords = Some (map to_dict (left_heroes @ right_heroes)),
          selected_abilities_coords =
            Some (map to_dict (left_selected @ right_selected))\<rparr>))))))))))))))))))))))"

section \<open>The validation report in closed form\<close>

text \<open>
  The lists of entries that each pass of \<open>validate_coordinates\<close> appends, written without
  the accumulator. They are used only to reason about the report; the lemma
  \<open>validate_coordinates_closed_form\<close> proves them equal to what the code computes.
\<close>

definition add_errors :: "verror list \<Rightarrow> validation \<Rightarrow> validation" where
  "add_errors es v = v\<lparr>errors := errors v @ es, passed := (passed v \<and> es = [])\<rparr>"

definition dims_item_errors :: "string \<Rightarrow> int \<Rightarrow> int \<Rightarrow> nat \<times> Coord \<Rightarrow> verror list" where
  "dims_item_errors category screen_w screen_h = (\<lambda>(i, item).
     (if x item < 0 \<or> y item < 0
      then [NegativeCoordinatesXY category i (x item) (y item)] else [])
     @ (if x item + (case width item of Some w \<Rightarrow> w | None \<Rightarrow> 0) > screen_w
        then [ExtendsBeyondWidth category i (hero_order item)] else [])
     @ (if y item + (case height item of Some h \<Rightarrow> h | None \<Rightarrow> 0) > screen_h
        then [ExtendsBeyondHeight category i (hero_order item)] else []))"

definition params_item_errors :: "string \<Rightarrow> params \<Rightarrow> int \<Rightarrow> int \<Rightarrow> nat \<times> Coord \<Rightarrow> verror list" where
  "params_item_errors category ps screen_w screen_h = (\<lambda>(i, item).
     (if x item < 0 \<or> y item < 0 then [NegativeCoordinates category i] else [])
     @ (if x item + params_width ps > screen_w
        then [ExtendsBeyondWidth category i (hero_order item)] else [])
     @ (if y item + params_height ps > screen_h
        then [ExtendsBeyondHeight category i (hero_order item)] else []))"

definition dims_category_errors :: "coords \<Rightarrow> int \<Rightarrow> int \<Rightarrow> string \<Rightarrow> verror list" where
  "dims_category_errors cd screen_w screen_h category =
     (case regions_of cd category of
        None \<Rightarrow> []
      | Some items \<Rightarrow>
          concat (map (dims_item_errors category screen_w screen_h) (enumerate 0 items)))"

definition params_category_errors :: "coords \<Rightarrow> int \<Rightarrow> int \<Rightarrow> string \<times> string \<Rightarrow> verror list" where
  "params_category_errors cd screen_w screen_h = (\<lambda>(category, params_key).
     (case regions_of cd category of
        None \<Rightarrow> []
      | Some items \<Rightarrow>
          (case params_of cd params_key of
             None \<Rightarrow> []
           | Some ps \<Rightarrow>
               concat (map (params_item_errors category ps screen_w screen_h)
                         (enumerate 0 items)))))"

definition count_errors :: "coords \<Rightarrow> string \<times> expected \<Rightarrow> verror list" where
  "count_errors cd = (\<lambda>(category, expd).
     (case regions_of cd category of
        None \<Rightarrow> [MissingCategory category]
      | Some items \<Rightarrow>
          (case expd of
             ExpectedList es \<Rightarrow> []
           | ExpectedInt e \<Rightarrow>
               (if length items \<noteq> e then [CountMismatch category e (length items)]
                else []))))"

definition all_errors :: "coords \<Rightarrow> int \<Rightarrow> int \<Rightarrow> verror list" where
  "all_errors cd screen_w screen_h =
     concat (map (dims_category_errors cd screen_w screen_h) categories_with_dims)
     @ concat (map (params_category_errors cd screen_w screen_h) categories_with_params)
     @ concat (map (count_errors cd) expected_counts)"

text \<open>
  A region whose mirroring stays within the integers that a double represents exactly; used
  to state when \<open>mirror_elements_to_right\<close> returns.
\<close>

definition mirror_safe :: "int \<Rightarrow> bool \<Rightarrow> int \<Rightarrow> Coord \<Rightarrow> bool" where
  "mirror_safe screen_width has_dimensions element_width elem =
     (case (if has_dimensions then width elem else Some element_width) of
        None \<Rightarrow> False
      | Some w \<Rightarrow>
          \<bar>screen_width\<bar> \<le> 2 ^ 53 \<and> \<bar>x elem\<bar> \<le> 2 ^ 53 \<and> \<bar>w\<bar> \<le> 2 ^ 53
          \<and> \<bar>screen_width - x elem\<bar> \<le> 2 ^ 53 \<and> \<bar>screen_width - x elem - w\<bar> \<le> 2 ^ 53)"

section \<open>Properties of the float model\<close>

lemma round_half_even_of_int: "round_half_even (of_int k) = k"
  by (simp add: round_half_even_def)

lemma floor_log2_upper:
  assumes "1 \<le> q" "q < 2 ^ k"
  shows "floor_log2 q \<le> int k - 1"
proof -
  have "\<lfloor>q\<rfloor> < 2 ^ k"
    using assms(2) by (simp add: floor_less_iff)
  then have "bitlen \<lfloor>q\<rfloor> \<le> int k"
    by (simp add: bitlen_le_iff_power)
  then show ?thesis using assms(1) by (simp add: floor_log2_def)
qed

lemma round_double_exactI:
  assumes "q \<noteq> 0" and "q / pow2 (max (floor_log2 \<bar>q\<bar>) (- 1022) - 52) = of_int k"
    and "\<bar>q\<bar> < 2 ^ 1024"
  shows "round_double q = Finite q"
proof -
  define u where "u = pow2 (max (floor_log2 \<bar>q\<bar>) (- 1022) - 52)"
  have u: "u \<noteq> 0" by (simp add: u_def pow2_def)
  have qk: "q / u = of_int k" using assms(2) by (simp add: u_def)
  then have "of_int (round_half_even (q / u)) * u = of_int k * u"
    by (simp add: round_half_even_of_int)
  also have "\<dots> = q" using qk u by (simp add: nonzero_divide_eq_eq)
  finally have "of_int (round_half_even (q / u)) * u = q" .
  then show ?thesis
    using assms(1,3) by (simp add: round_double_def Let_def u_def)
qed

lemma round_double_half:
  assumes "\<bar>n\<bar> \<le> 2 ^ 53"
  shows "round_double (of_int n / 2) = Finite (of_int n / 2)"
proof (cases "n = 0")
  case True
  then show ?thesis by (simp add: round_double_def)
next
  case False
  define q :: rat where "q = of_int n / 2"
  have q0: "q \<noteq> 0" using False by (simp add: q_def)
  have qabs: "\<bar>q\<bar> = of_int \<bar>n\<bar> / 2" by (simp add: q_def)
  have qle: "\<bar>q\<bar> \<le> 2 ^ 52"
  proof -
    have "(of_int \<bar>n\<bar> :: rat) \<le> of_int (2 ^ 53)" using assms by (subst of_int_le_iff)
    then show ?thesis unfolding qabs by simp
  qed
  define e where "e = max (floor_log2 \<bar>q\<bar>) (- 1022)"
  have e_bounds: "- 1022 \<le> e \<and> e \<le> 52"
  proof (cases "1 \<le> \<bar>q\<bar>")
    case True
    have "\<bar>q\<bar> < 2 ^ 53" using qle by simp
    from floor_log2_upper[OF True this] show ?thesis by (simp add: e_def)
  next
    case False
    then have "floor_log2 \<bar>q\<bar> \<le> 0"
      by (simp add: floor_log2_def bitlen_nonneg)
    then show ?thesis by (simp add: e_def)
  qed
  have int_case: "\<exists>k. q / pow2 (e - 52) = of_int k"
  proof (cases "e = 52")
    case True
    have "\<bar>q\<bar> = 2 ^ 52"
    proof (rule ccontr)
      assume "\<bar>q\<bar> \<noteq> 2 ^ 52"
      then have lt: "\<bar>q\<bar> < 2 ^ 52" using qle by simp
      show False
      proof (cases "1 \<le> \<bar>q\<bar>")
        case True
        from floor_log2_upper[OF True lt] have "floor_log2 \<bar>q\<bar> \<le> 51" by simp
        then show False using \<open>e = 52\<close> by (simp add: e_def)
      next
        case False
        then have "floor_log2 \<bar>q\<bar> \<le> 0"
          by (simp add: floor_log2_def bitlen_nonneg)
        then show False using \<open>e = 52\<close> by (simp add: e_def)
      qed
    qed
    then have "q = 2 ^ 52 \<or> q = - (2 ^ 52)" by (auto simp: abs_if split: if_splits)
    then show ?thesis
    proof
      assume "q = 2 ^ 52"
      then have "q / pow2 (e - 52) = of_int (2 ^ 52)" using True by (simp add: pow2_def)
      then show ?thesis by blast
    next
      assume "q = - (2 ^ 52)"
      then have "q / pow2 (e - 52) = of_int (- (2 ^ 52))" using True by (simp add: pow2_def)
      then show ?thesis by blast
    qed
  next
    case False
    then have lt: "e < 52" using e_bounds by simp
    define j where "j = nat (51 - e)"
    have pw: "pow2 (e - 52) = 1 / 2 ^ Suc j"
      using lt by (simp add: pow2_def j_def nat_diff_distrib Suc_nat_eq_nat_zadd1 algebra_simps)
    have "q / pow2 (e - 52) = of_int (n * 2 ^ j)"
      unfolding pw q_def by simp
    then show ?thesis by blast
  qed
  then obtain k where k: "q / pow2 (e - 52) = of_int k" by blast
  have "\<bar>q\<bar> < 2 ^ 1024" using qle by (rule le_less_trans) simp
  from round_double_exactI[OF q0 k[unfolded e_def] this] show ?thesis by (simp add: q_def)
qed

lemma round_double_int:
  assumes "\<bar>n\<bar> \<le> 2 ^ 52"
  shows "round_double (of_int n) = Finite (of_int n)"
proof -
  have "\<bar>2 * n\<bar> \<le> 2 ^ 53" using assms by simp
  from round_double_half[OF this] show ?thesis by simp
qed

lemma round_double_int53:
  assumes "\<bar>n\<bar> \<le> 2 ^ 53"
  shows "round_double (of_int n) = Finite (of_int n)"
proof (cases "\<bar>n\<bar> \<le> 2 ^ 52")
  case True
  then show ?thesis by (rule round_double_int)
next
  case False
  define q :: rat where "q = of_int n"
  have q0: "q \<noteq> 0" using False by (auto simp: q_def)
  have qabs: "\<bar>q\<bar> = of_int \<bar>n\<bar>" by (simp add: q_def)
  have one: "1 \<le> \<bar>q\<bar>" using False unfolding qabs by simp
  have qle: "\<bar>q\<bar> \<le> 2 ^ 53"
  proof -
    have "(of_int \<bar>n\<bar> :: rat) \<le> of_int (2 ^ 53)" using assms by (subst of_int_le_iff)
    then show ?thesis unfolding qabs by simp
  qed
  define e where "e = max (floor_log2 \<bar>q\<bar>) (- 1022)"
  have "\<bar>q\<bar> < 2 ^ 54" using qle by simp
  from floor_log2_upper[OF one this] have e53: "e \<le> 53" by (simp add: e_def)
  have even_n: "even n \<or> e \<le> 52"
  proof (cases "\<bar>n\<bar> = 2 ^ 53")
    case True
    then have "n = 2 ^ 53 \<or> n = - (2 ^ 53)" by (auto simp: abs_if split: if_splits)
    then show ?thesis by auto
  next
    case False
    then have "\<bar>n\<bar> < 2 ^ 53" using assms by simp
    then have "(of_int \<bar>n\<bar> :: rat) < of_int (2 ^ 53)" by (subst of_int_less_iff)
    then have "\<bar>q\<bar> < 2 ^ 53" unfolding qabs by simp
    from floor_log2_upper[OF one this] show ?thesis by (simp add: e_def)
  qed
  have "\<exists>k. q / pow2 (e - 52) = of_int k"
  proof (cases "e = 53")
    case True
    then have "even n" using even_n by simp
    then obtain m where m: "n = 2 * m" by (auto elim: evenE)
    have "q / pow2 (e - 52) = of_int m" using True by (simp add: pow2_def q_def m)
    then show ?thesis by blast
  next
    case False
    then have le: "e \<le> 52" using e53 by simp
    define j where "j = nat (52 - e)"
    have pw: "pow2 (e - 52) = 1 / 2 ^ j"
      using le by (simp add: pow2_def j_def nat_diff_distrib algebra_simps)
    have "q / pow2 (e - 52) = of_int (n * 2 ^ j)"
      unfolding pw q_def by simp
    then show ?thesis by blast
  qed
  then obtain k where k: "q / pow2 (e - 52) = of_int k" by blast
  have "\<bar>q\<bar> < 2 ^ 1024" using qle by (rule le_less_trans) simp
  from round_double_exactI[OF q0 k[unfolded e_def] this] show ?thesis by (simp add: q_def)
qed

lemma bindE_Inr [simp]: "bindE (Inr v) f = f v"
  by (simp add: bindE_def)

lemma bindE_Inl [simp]: "bindE (Inl e) f = Inl e"
  by (simp add: bindE_def)

lemma bindE_eq_Inr: "bindE m f = Inr r \<longleftrightarrow> (\<exists>v. m = Inr v \<and> f v = Inr r)"
  by (cases m) simp_all

lemma int_to_float_exact: "\<bar>n\<bar> \<le> 2 ^ 53 \<Longrightarrow> int_to_float n = Inr (Finite (of_int n))"
  by (simp add: int_to_float_def round_double_int53)

lemma int_truediv_2_exact: "\<bar>n\<bar> \<le> 2 ^ 53 \<Longrightarrow> int_truediv n 2 = Inr (Finite (of_int n / 2))"
  by (simp add: int_truediv_def round_double_half)

lemma float_to_int_of_int: "float_to_int (Finite (of_int k)) = Inr k"
  by simp

lemma mirror_coordinate_exact:
  assumes "\<bar>sw\<bar> \<le> 2 ^ 53" "\<bar>px\<bar> \<le> 2 ^ 53" "\<bar>w\<bar> \<le> 2 ^ 53"
    and "\<bar>sw - px\<bar> \<le> 2 ^ 53" "\<bar>sw - px - w\<bar> \<le> 2 ^ 53"
  shows "mirror_coordinate px py (Some w) h sw = Inr (sw - px - w, py)"
proof -
  have two: "int_to_float 2 = Inr (Finite 2)"
    using int_to_float_exact[of 2] by simp
  have "float_mul (Finite 2) (Finite (of_int sw / 2)) = round_double (of_int sw)"
    by simp
  then have m: "float_mul (Finite 2) (Finite (of_int sw / 2)) = Finite (of_int sw)"
    by (simp only: round_double_int53[OF assms(1)])
  have "float_sub (Finite (of_int sw)) (Finite (of_int px)) = round_double (of_int (sw - px))"
    by simp
  then have s1: "float_sub (Finite (of_int sw)) (Finite (of_int px)) = Finite (of_int (sw - px))"
    by (simp only: round_double_int53[OF assms(4)])
  have "float_sub (Finite (of_int (sw - px))) (Finite (of_int w)) = round_double (of_int (sw - px - w))"
    by simp
  then have s2: "float_sub (Finite (of_int (sw - px))) (Finite (of_int w)) = Finite (of_int (sw - px - w))"
    by (simp only: round_double_int53[OF assms(5)])
  show ?thesis
    unfolding mirror_coordinate_def
    by (simp only: int_truediv_2_exact[OF assms(1)] two int_to_float_exact[OF assms(2)]
        int_to_float_exact[OF assms(3)] m s1 s2 float_to_int_of_int bindE_Inr option.case)
qed

lemma bitlen_power2: "bitlen (2 ^ w) = int w + 1"
  using bitlen_twopow_add_eq[of 0 w] by simp

lemma bitlen_2_1024: "bitlen (2 ^ 1024) = 1025"
proof -
  have "bitlen (2 ^ 1024) = int 1024 + 1" by (rule bitlen_power2)
  also have "int 1024 + 1 = 1025" by simp
  finally show ?thesis .
qed

lemma round_double_2_1024: "round_double (2 ^ 1024) = PosInf"
proof -
  define P :: rat where "P = 2 ^ 1024"
  define U :: rat where "U = 2 ^ 972"
  have pos: "0 < P" unfolding P_def by (rule zero_less_power) simp
  have one: "1 \<le> P" unfolding P_def by (rule one_le_power) simp
  have ab: "\<bar>P\<bar> = P" using pos by (rule abs_of_pos)
  have "P = of_int (2 ^ 1024)" unfolding P_def by (simp only: of_int_power of_int_numeral)
  then have "\<lfloor>P\<rfloor> = 2 ^ 1024" by (simp only: floor_of_int)
  then have "floor_log2 P = bitlen (2 ^ 1024) - 1"
    unfolding floor_log2_def using one by (simp only: if_True)
  then have fl: "floor_log2 P = 1024" by (simp only: bitlen_2_1024)
  have mx: "max (1024::int) (- 1022) - 52 = 972" by simp
  have p: "pow2 972 = U" by (simp add: pow2_def U_def)
  have U0: "U \<noteq> 0" unfolding U_def by simp
  have "P = 2 ^ (52 + 972)" unfolding P_def by simp
  then have PU: "P = of_int (2 ^ 52) * U" unfolding U_def power_add by simp
  then have dv: "P / U = of_int (2 ^ 52)" using U0 by simp
  have r: "of_int (round_half_even (P / U)) * U = P"
    unfolding dv round_half_even_of_int using PU by simp
  have ne: "P \<noteq> 0" using pos by simp
  have ge: "2 ^ 1024 \<le> P" unfolding P_def by (rule order_refl)
  have "round_double P = PosInf"
    unfolding round_double_def Let_def ab fl mx p r
    by (simp only: ne ge pos if_True if_False)
  then show ?thesis unfolding P_def .
qed

lemma int_truediv_overflow: "int_truediv (2 ^ 1025) 2 = Inl OverflowError"
proof -
  have "(of_int (2 ^ 1025) :: rat) = 2 * 2 ^ 1024" by (simp only: of_int_power of_int_numeral) simp
  then have q: "(of_int (2 ^ 1025) :: rat) / of_int 2 = 2 ^ 1024" by simp
  show ?thesis unfolding int_truediv_def q round_double_2_1024 by simp
qed

lemma bitlen_2_52: "bitlen 4503599627370496 = 53"
  using bitlen_power2[of 52] by simp

lemma floor_tie: "\<lfloor>9007199254740993 / 2 :: rat\<rfloor> = 4503599627370496"
  by (simp add: floor_eq_iff)

lemma round_half_even_tie: "round_half_even (9007199254740993 / 2) = 4503599627370496"
  by (simp add: round_half_even_def Let_def floor_tie)

lemma floor_log2_tie: "floor_log2 (9007199254740993 / 2) = 52"
  by (simp add: floor_log2_def bitlen_2_52 floor_tie)

lemma round_double_tie: "round_double (9007199254740993 / 2) = Finite 4503599627370496"
  by (simp add: round_double_def Let_def floor_log2_tie pow2_def round_half_even_tie)

lemma int_truediv_tie: "int_truediv 9007199254740993 2 = Inr (Finite 4503599627370496)"
  by (simp add: int_truediv_def round_double_tie)

lemma mirror_coordinate_tie: "mirror_coordinate 100 20 (Some 50) (Some 30) 9007199254740993 = Inr (9007199254740842, 20)"
proof -
  have two: "int_to_float 2 = Inr (Finite 2)"
    using int_to_float_exact[of 2] by simp
  have f100: "int_to_float 100 = Inr (Finite 100)"
    using int_to_float_exact[of 100] by simp
  have f50: "int_to_float 50 = Inr (Finite 50)"
    using int_to_float_exact[of 50] by simp
  have m: "float_mul (Finite 2) (Finite 4503599627370496) = Finite 9007199254740992"
    using round_double_int53[of 9007199254740992] by simp
  have s1: "float_sub (Finite 9007199254740992) (Finite 100) = Finite 9007199254740892"
    using round_double_int53[of 9007199254740892] by simp
  have s2: "float_sub (Finite 9007199254740892) (Finite 50) = Finite 9007199254740842"
    using round_double_int53[of 9007199254740842] by simp
  have fi: "float_to_int (Finite 9007199254740842) = Inr 9007199254740842"
    by simp
  show ?thesis
    unfolding mirror_coordinate_def
    by (simp only: int_truediv_tie two f100 f50 m s1 s2 fi bindE_Inr option.case)
qed

section \<open>Corner conversion\<close>

text \<open>
  C7. Convention A maps a bottom-left and a top-right corner to the rectangle with the left
  edge of the first, the top edge of the second, and the two differences as width and
  height; convention B maps a top-left and a bottom-right corner likewise. Convention A on
  (100,200), (150,180) and convention B on (100,180), (150,200) give the same rectangle
  \<open>{x: 100, y: 180, width: 50, height: 20}\<close>.
\<close>

theorem corner_conversion_conventions:
  "calculate_from_bottom_left_top_right (blx, bly) (trx, try) =
     \<lparr>rect_x = blx, rect_y = try, rect_width = trx - blx, rect_height = bly - try\<rparr>
   \<and> calculate_from_top_left_bottom_right (tlx, tly) (brx, bry) =
     \<lparr>rect_x = tlx, rect_y = tly, rect_width = brx - tlx, rect_height = bry - tly\<rparr>
   \<and> calculate_from_bottom_left_top_right (100, 200) (150, 180) =
     \<lparr>rect_x = 100, rect_y = 180, rect_width = 50, rect_height = 20\<rparr>
   \<and> calculate_from_top_left_bottom_right (100, 180) (150, 200) =
     \<lparr>rect_x = 100, rect_y = 180, rect_width = 50, rect_height = 20\<rparr>"
  by (simp add: calculate_from_bottom_left_top_right_def calculate_from_top_left_bottom_right_def)

section \<open>Mirroring\<close>

lemma mapE_Inr_length: "mapE f xs = Inr ys \<Longrightarrow> length ys = length xs"
  by (induction xs arbitrary: ys) (auto simp: bindE_eq_Inr)

lemma mapE_Inr_nth: "mapE f xs = Inr ys \<Longrightarrow> k < length xs \<Longrightarrow> f (xs ! k) = Inr (ys ! k)"
proof (induction xs arbitrary: ys k)
  case Nil
  then show ?case by simp
next
  case (Cons a as)
  from Cons.prems(1) obtain b bs where b: "f a = Inr b" and bs: "mapE f as = Inr bs"
    and ys: "ys = b # bs"
    by (auto simp: bindE_eq_Inr)
  show ?case
  proof (cases k)
    case 0
    then show ?thesis using b ys by simp
  next
    case (Suc j)
    then have "j < length as" using Cons.prems(2) by simp
    from Cons.IH[OF bs this] show ?thesis using Suc ys by simp
  qed
qed

lemma mirror_elements_nth:
  assumes "mirror_elements_to_right left_elements sw element_type has_dimensions ew eh = Inr right_elements"
    and "k < length left_elements"
  shows "mirror_element sw element_type has_dimensions ew eh
           (case map_of hero_order_offset element_type of Some v \<Rightarrow> v | None \<Rightarrow> 0)
           (left_elements ! k) = Inr (right_elements ! k)"
  using assms unfolding mirror_elements_to_right_def Let_def by (rule mapE_Inr_nth)

lemma mirror_elements_length:
  "mirror_elements_to_right left_elements sw element_type has_dimensions ew eh = Inr right_elements
   \<Longrightarrow> length right_elements = length left_elements"
  unfolding mirror_elements_to_right_def Let_def by (rule mapE_Inr_length)

lemma mirror_element_Inr:
  assumes "mirror_element sw ty hasd ew eh off elem = Inr r"
  shows "mirror_coordinate (x elem) (y elem) (if hasd then width elem else Some ew)
             (if hasd then height elem else Some eh) sw = Inr (x r, y r)"
    and "width r = (if hasd then width elem else None)"
    and "height r = (if hasd then height elem else None)"
    and "hero_order r = (case hero_order elem of
                       Some h \<Rightarrow>
                         Some (if h = 10 then 11
                               else if ty \<in> set [''heroes'', ''models'', ''selected_abilities'']
                                    then h + off
                                    else h)
                     | None \<Rightarrow> None)"
    and "ability_order r = ability_order elem"
    and "is_ultimate r = is_ultimate elem"
proof -
  from assms obtain mx my where
    mc: "mirror_coordinate (x elem) (y elem) (if hasd then width elem else Some ew)
             (if hasd then height elem else Some eh) sw = Inr (mx, my)"
    and r: "r = \<lparr>x = mx, y = my,
                 width = (if hasd then width elem else None),
                 height = (if hasd then height elem else None),
                 hero_order = (case hero_order elem of
                       Some h \<Rightarrow>
                         Some (if h = 10 then 11
                               else if ty \<in> set [''heroes'', ''models'', ''selected_abilities'']
                                    then h + off
                                    else h)
                     | None \<Rightarrow> None),
                 ability_order = ability_order elem, is_ultimate = is_ultimate elem\<rparr>"
    unfolding mirror_element_def Let_def bindE_eq_Inr by (auto split: if_splits)
  show "mirror_coordinate (x elem) (y elem) (if hasd then width elem else Some ew)
             (if hasd then height elem else Some eh) sw = Inr (x r, y r)"
    using mc r by simp
  show "width r = (if hasd then width elem else None)" using r by simp
  show "height r = (if hasd then height elem else None)" using r by simp
  show "hero_order r = (case hero_order elem of
                       Some h \<Rightarrow>
                         Some (if h = 10 then 11
                               else if ty \<in> set [''heroes'', ''models'', ''selected_abilities'']
                                    then h + off
                                    else h)
                     | None \<Rightarrow> None)" using r by simp
  show "ability_order r = ability_order elem" using r by simp
  show "is_ultimate r = is_ultimate elem" using r by simp
qed

text \<open>
  C1 (amended). The source computes \<open>int(2 * (screen_width / 2) - x - width)\<close> in double
  precision. Whenever the screen width, the left edge, the width and the two intermediate
  differences have magnitude at most \<open>2^53\<close>, which covers every real screen, every step
  is exact: \<open>mirror_coordinate\<close> returns \<open>(sw - x - w, y)\<close>, and every region that
  \<open>mirror_elements_to_right\<close> produces has \<open>mirrored_x + w = sw - x\<close> and an unchanged
  \<open>y\<close>, where \<open>w\<close> is the region's own width when the category stores sizes per region
  and the shared width otherwise.
\<close>

theorem mirror_exact_within_double_range:
  assumes "\<bar>sw\<bar> \<le> 2 ^ 53" and "\<bar>px\<bar> \<le> 2 ^ 53" and "\<bar>w\<bar> \<le> 2 ^ 53"
    and "\<bar>sw - px\<bar> \<le> 2 ^ 53" and "\<bar>sw - px - w\<bar> \<le> 2 ^ 53"
  shows "mirror_coordinate px py (Some w) h sw = Inr (sw - px - w, py)
    \<and> (\<forall>left_elements right_elements element_type has_dimensions ew eh k.
          mirror_elements_to_right left_elements sw element_type has_dimensions ew eh
            = Inr right_elements
          \<longrightarrow> k < length left_elements
          \<longrightarrow> x (left_elements ! k) = px \<longrightarrow> y (left_elements ! k) = py
          \<longrightarrow> (if has_dimensions then width (left_elements ! k) else Some ew) = Some w
          \<longrightarrow> x (right_elements ! k) = sw - px - w
              \<and> x (right_elements ! k) + w = sw - px
              \<and> y (right_elements ! k) = py)"
proof (intro conjI allI impI)
  show "mirror_coordinate px py (Some w) h sw = Inr (sw - px - w, py)"
    using assms by (rule mirror_coordinate_exact)
next
  fix left_elements right_elements element_type has_dimensions ew eh k
  assume m: "mirror_elements_to_right left_elements sw element_type has_dimensions ew eh
            = Inr right_elements"
    and k: "k < length left_elements"
    and px: "x (left_elements ! k) = px" and py: "y (left_elements ! k) = py"
    and w: "(if has_dimensions then width (left_elements ! k) else Some ew) = Some w"
  have mc: "mirror_coordinate px py (Some w) hh sw = Inr (sw - px - w, py)" for hh
    using assms by (rule mirror_coordinate_exact)
  from mirror_element_Inr(1)[OF mirror_elements_nth[OF m k]]
  have "Inr (x (right_elements ! k), y (right_elements ! k)) = (Inr (sw - px - w, py) :: py_exception + int \<times> int)"
    unfolding px py w mc by (rule sym)
  then have r: "x (right_elements ! k) = sw - px - w \<and> y (right_elements ! k) = py"
    by simp
  then show "x (right_elements ! k) = sw - px - w" by simp
  from r show "x (right_elements ! k) + w = sw - px" by simp
  from r show "y (right_elements ! k) = py" by simp
qed

theorem mirror_exact_witness:
  "mirror_coordinate 50 7 (Some 100) (Some 30) 1920 = Inr (1770, 7)
   \<and> mirror_elements_to_right
         [\<lparr>x = 50, y = 7, width = None, height = None, hero_order = Some 0,
           ability_order = None, is_ultimate = None\<rparr>] 1920 ''heroes'' False 100 30
       = Inr [\<lparr>x = 1770, y = 7, width = None, height = None, hero_order = Some 5,
               ability_order = None, is_ultimate = None\<rparr>]"
proof -
  have "mirror_coordinate 50 7 (Some 100) (Some 30) 1920 = Inr (1920 - 50 - 100, 7)"
    by (rule mirror_exact_within_double_range[THEN conjunct1]) simp_all
  then have mc: "mirror_coordinate 50 7 (Some 100) (Some 30) 1920 = Inr (1770, 7)" by simp
  have "mirror_element 1920 ''heroes'' False 100 30 5
         \<lparr>x = 50, y = 7, width = None, height = None, hero_order = Some 0,
           ability_order = None, is_ultimate = None\<rparr>
        = Inr \<lparr>x = 1770, y = 7, width = None, height = None, hero_order = Some 5,
               ability_order = None, is_ultimate = None\<rparr>"
    by (simp add: mirror_element_def mc)
  then have "mirror_elements_to_right
         [\<lparr>x = 50, y = 7, width = None, height = None, hero_order = Some 0,
           ability_order = None, is_ultimate = None\<rparr>] 1920 ''heroes'' False 100 30
       = Inr [\<lparr>x = 1770, y = 7, width = None, height = None, hero_order = Some 5,
               ability_order = None, is_ultimate = None\<rparr>]"
    by (simp add: mirror_elements_to_right_def hero_order_offset_def)
  with mc show ?thesis by simp
qed

text \<open>
  Beyond that range the equation fails: for a screen width of \<open>2^53 + 1\<close> the quotient
  \<open>screen_width / 2\<close> is a tie and rounds to \<open>2^52\<close>, so the mirrored edge is off by one.
\<close>

theorem mirror_inexact_counterexample:
  "mirror_coordinate 100 20 (Some 50) (Some 30) 9007199254740993 = Inr (9007199254740842, 20)
   \<and> 9007199254740842 + 50 \<noteq> 9007199254740993 - (100::int)"
  by (simp add: mirror_coordinate_tie)

lemma offset_of_offset_categories:
  "ty \<in> {''models'', ''heroes'', ''selected_abilities''} \<Longrightarrow>
   (case map_of hero_order_offset ty of Some v \<Rightarrow> v | None \<Rightarrow> 0) = 5"
  by (auto simp: hero_order_offset_def)

lemma mirror_element_value:
  assumes "mirror_coordinate (x elem) (y elem) (if hasd then width elem else Some ew)
             (if hasd then height elem else Some eh) sw = Inr (mx, my)"
  shows "mirror_element sw ty hasd ew eh off elem =
           Inr \<lparr>x = mx, y = my,
                 width = (if hasd then width elem else None),
                 height = (if hasd then height elem else None),
                 hero_order = (case hero_order elem of
                       Some h \<Rightarrow>
                         Some (if h = 10 then 11
                               else if ty \<in> set [''heroes'', ''models'', ''selected_abilities'']
                                    then h + off
                                    else h)
                     | None \<Rightarrow> None),
                 ability_order = ability_order elem, is_ultimate = is_ultimate elem\<rparr>"
  using assms by (simp add: mirror_element_def Let_def)

lemma mapE_total:
  "(\<And>a. a \<in> set xs \<Longrightarrow> \<exists>b. f a = Inr b) \<Longrightarrow> \<exists>ys. mapE f xs = Inr ys"
proof (induction xs)
  case Nil
  then show ?case by simp
next
  case (Cons a xs)
  from Cons.prems[of a] obtain b where b: "f a = Inr b" by auto
  from Cons.IH Cons.prems obtain ys where "mapE f xs = Inr ys" by auto
  with b show ?case by simp
qed

lemma mirror_element_safe:
  assumes "mirror_safe sw hasd ew e"
  shows "\<exists>r. mirror_element sw ty hasd ew eh off e = Inr r"
proof -
  from assms obtain w where w: "(if hasd then width e else Some ew) = Some w"
    and b: "\<bar>sw\<bar> \<le> 2 ^ 53" "\<bar>x e\<bar> \<le> 2 ^ 53" "\<bar>w\<bar> \<le> 2 ^ 53"
      "\<bar>sw - x e\<bar> \<le> 2 ^ 53" "\<bar>sw - x e - w\<bar> \<le> 2 ^ 53"
    unfolding mirror_safe_def by (auto split: option.splits)
  have "mirror_coordinate (x e) (y e) (if hasd then width e else Some ew)
          (if hasd then height e else Some eh) sw = Inr (sw - x e - w, y e)"
    unfolding w using b by (rule mirror_coordinate_exact)
  from mirror_element_value[OF this] show ?thesis by blast
qed

lemma mirror_elements_safe:
  assumes "\<And>e. e \<in> set left_elements \<Longrightarrow> mirror_safe sw hasd ew e"
  shows "\<exists>right_elements.
     mirror_elements_to_right left_elements sw ty hasd ew eh = Inr right_elements"
  unfolding mirror_elements_to_right_def Let_def
  by (rule mapE_total) (rule mirror_element_safe, rule assms)

text \<open>
  C3. In the categories mirrored as \<open>models\<close>, \<open>heroes\<close> and \<open>selected_abilities\<close> a
  region with left identity \<open>i\<close> gets the right identity \<open>i + 5\<close>, except that 10 becomes
  11; \<open>ability_order\<close> and \<open>is_ultimate\<close> are copied from the source region. This holds
  for every list that \<open>mirror_elements_to_right\<close> returns, and it returns one whenever
  every region is within the range in which doubles are exact.
\<close>

theorem mirror_identity_offset:
  assumes "element_type \<in> {''models'', ''heroes'', ''selected_abilities''}"
  shows "((\<forall>e \<in> set left_elements. mirror_safe sw has_dimensions ew e) \<longrightarrow>
           (\<exists>right_elements.
              mirror_elements_to_right left_elements sw element_type has_dimensions ew eh
                = Inr right_elements))
    \<and> (\<forall>right_elements k i.
          mirror_elements_to_right left_elements sw element_type has_dimensions ew eh
            = Inr right_elements
          \<longrightarrow> k < length left_elements
          \<longrightarrow> hero_order (left_elements ! k) = Some i
          \<longrightarrow> length right_elements = length left_elements
              \<and> hero_order (right_elements ! k) = Some (if i = 10 then 11 else i + 5)
              \<and> ability_order (right_elements ! k) = ability_order (left_elements ! k)
              \<and> is_ultimate (right_elements ! k) = is_ultimate (left_elements ! k))"
proof (intro conjI allI impI)
  assume "\<forall>e \<in> set left_elements. mirror_safe sw has_dimensions ew e"
  then show "\<exists>right_elements.
              mirror_elements_to_right left_elements sw element_type has_dimensions ew eh
                = Inr right_elements"
    by (intro mirror_elements_safe) simp
next
  fix right_elements k i
  assume m: "mirror_elements_to_right left_elements sw element_type has_dimensions ew eh
            = Inr right_elements"
    and k: "k < length left_elements" and i: "hero_order (left_elements ! k) = Some i"
  note e = mirror_elements_nth[OF m k]
  have ty: "element_type \<in> set [''heroes'', ''models'', ''selected_abilities'']"
    using assms by auto
  show "hero_order (right_elements ! k) = Some (if i = 10 then 11 else i + 5)"
    using mirror_element_Inr(4)[OF e] ty
    by (simp only: i offset_of_offset_categories[OF assms] option.case if_True)
  show "ability_order (right_elements ! k) = ability_order (left_elements ! k)"
    by (rule mirror_element_Inr(5)[OF e])
  show "is_ultimate (right_elements ! k) = is_ultimate (left_elements ! k)"
    by (rule mirror_element_Inr(6)[OF e])
  show "length right_elements = length left_elements"
    using m by (rule mirror_elements_length)
qed

theorem mirror_identity_offset_witness:
  "mirror_elements_to_right
     [\<lparr>x = 10, y = 500, width = Some 30, height = Some 30, hero_order = Some 4,
       ability_order = Some 2, is_ultimate = Some True\<rparr>,
      \<lparr>x = 10, y = 540, width = Some 30, height = Some 30, hero_order = Some 10,
       ability_order = None, is_ultimate = None\<rparr>] 1920 ''models'' True 0 0 =
     Inr [\<lparr>x = 1880, y = 500, width = Some 30, height = Some 30, hero_order = Some 9,
           ability_order = Some 2, is_ultimate = Some True\<rparr>,
          \<lparr>x = 1880, y = 540, width = Some 30, height = Some 30, hero_order = Some 11,
           ability_order = None, is_ultimate = None\<rparr>]"
  (is "mirror_elements_to_right ?L 1920 ''models'' True 0 0 = Inr ?R")
proof -
  have mc: "mirror_coordinate 10 py (Some 30) (Some 30) 1920 = Inr (1880, py)" for py
    using mirror_coordinate_exact[of 1920 10 30 py "Some 30"] by simp
  obtain R where m: "mirror_elements_to_right ?L 1920 ''models'' True 0 0 = Inr R"
    by (simp add: mirror_elements_to_right_def hero_order_offset_def mirror_element_value mc)
  have ty: "''models'' \<in> {''models'', ''heroes'', ''selected_abilities''}" by simp
  note t = mirror_identity_offset[OF ty, of ?L 1920 True 0 0, THEN conjunct2, rule_format, OF m]
  have t0: "hero_order (R ! 0) = Some 9 \<and> ability_order (R ! 0) = Some 2
      \<and> is_ultimate (R ! 0) = Some True \<and> length R = 2"
    using t[of 0 4] by simp
  have t1: "hero_order (R ! 1) = Some 11 \<and> ability_order (R ! 1) = None
      \<and> is_ultimate (R ! 1) = None"
    using t[of 1 10] by simp
  have g0: "x (R ! 0) = 1880 \<and> y (R ! 0) = 500 \<and> width (R ! 0) = Some 30 \<and> height (R ! 0) = Some 30"
    using mirror_element_Inr(1,2,3)[OF mirror_elements_nth[OF m, of 0]] by (simp add: mc)
  have g1: "x (R ! 1) = 1880 \<and> y (R ! 1) = 540 \<and> width (R ! 1) = Some 30 \<and> height (R ! 1) = Some 30"
    using mirror_element_Inr(1,2,3)[OF mirror_elements_nth[OF m, of 1]] by (simp add: mc)
  from t0 obtain a b where R: "R = [a, b]"
    by (auto simp: length_Suc_conv numeral_2_eq_2)
  have "R = ?R" using t0 t1 g0 g1 unfolding R by simp
  then show ?thesis using m by simp
qed

section \<open>Identity stamping\<close>

lemma list6:
  assumes "length xs = 6"
  obtains c0 c1 c2 c3 c4 c5 where "xs = [c0, c1, c2, c3, c4, c5]"
proof -
  from assms have "length xs = Suc (Suc (Suc (Suc (Suc (Suc 0)))))" by simp
  then obtain c0 c1 c2 c3 c4 c5 where "xs = [c0, c1, c2, c3, c4, c5]"
    by (auto simp: length_Suc_conv)
  then show ?thesis by (rule that)
qed

lemma stamp6:
  assumes "length orders = 6" and "length cs = 6"
  shows "\<exists>r. stamp_hero_orders orders 0 cs = Inr r \<and> map hero_order r = map Some orders
     \<and> length r = 6"
proof -
  from assms(1) obtain o0 o1 o2 o3 o4 o5 where o: "orders = [o0, o1, o2, o3, o4, o5]"
    by (rule list6)
  from assms(2) obtain c0 c1 c2 c3 c4 c5 where c: "cs = [c0, c1, c2, c3, c4, c5]"
    by (rule list6)
  show ?thesis unfolding o c by simp
qed

lemma list18:
  assumes "length xs = 18"
  obtains c0 c1 c2 c3 c4 c5 c6 c7 c8 c9 c10 c11 c12 c13 c14 c15 c16 c17
  where "xs = [c0, c1, c2, c3, c4, c5, c6, c7, c8, c9, c10, c11, c12, c13, c14, c15, c16, c17]"
proof -
  define ys where "ys = take 6 xs"
  define zs where "zs = take 6 (drop 6 xs)"
  define ws where "ws = drop 12 xs"
  have d: "drop 6 (drop 6 xs) = ws" by (simp add: ws_def)
  have "zs @ ws = drop 6 xs" unfolding zs_def d[symmetric] by (rule append_take_drop_id)
  then have "ys @ zs @ ws = xs" unfolding ys_def by simp
  then have xs: "xs = ys @ zs @ ws" by (rule sym)
  have l: "length ys = 6" "length zs = 6" "length ws = 6"
    using assms by (simp_all add: ys_def zs_def ws_def)
  from l(1) obtain c0 c1 c2 c3 c4 c5 where ys: "ys = [c0, c1, c2, c3, c4, c5]" by (rule list6)
  from l(2) obtain c6 c7 c8 c9 c10 c11 where zs: "zs = [c6, c7, c8, c9, c10, c11]" by (rule list6)
  from l(3) obtain c12 c13 c14 c15 c16 c17 where ws: "ws = [c12, c13, c14, c15, c16, c17]" by (rule list6)
  show ?thesis by (rule that[of c0 c1 c2 c3 c4 c5 c6 c7 c8 c9 c10 c11 c12 c13 c14 c15 c16 c17]) (simp add: xs ys zs ws)
qed

lemma upt3: "[0..<3] = [0, 1, 2]" by (simp add: upt_rec)
lemma upt6: "[0..<6] = [0, 1, 2, 3, 4, 5]" by (simp add: upt_rec)

lemma apply_standard_18:
  assumes "length xs = 18"
  shows "apply_standard_hero_orders xs side =
     Inr (map (\<lambda>(idx, c). c\<lparr>hero_order :=
                     Some ((if side then [0, 1, 2, 3, 4, 10] else [5, 6, 7, 8, 9, 11]) ! (idx div 3)),
                   ability_order := Some (int (idx mod 3) + 1)\<rparr>) (enumerate 0 xs))"
proof -
  from assms obtain c0 c1 c2 c3 c4 c5 c6 c7 c8 c9 c10 c11 c12 c13 c14 c15 c16 c17
    where xs: "xs = [c0, c1, c2, c3, c4, c5, c6, c7, c8, c9, c10, c11, c12, c13, c14, c15, c16, c17]"
    by (rule list18)
  have e: "enumerate 0 xs = zip [0, 1, 2, 3, 4, 5, 6, 7, 8, 9, 10, 11, 12, 13, 14, 15, 16, 17] xs"
    unfolding enumerate_eq_zip xs by (simp add: upt_rec)
  show ?thesis
    unfolding apply_standard_hero_orders_def Let_def upt3 upt6 e
    unfolding xs
    by (cases side) (simp_all add: stamp_standard_def Let_def)
qed

lemma row_col_div: "col < 3 \<Longrightarrow> (row * 3 + col) div 3 = (row::nat)"
  by simp

lemma apply_standard_nth:
  assumes "length xs = 18" and "row < 6" and "col < 3"
    and "apply_standard_hero_orders xs side = Inr r"
  shows "hero_order (r ! (row * 3 + col)) =
           Some ((if side then [0, 1, 2, 3, 4, 10] else [5, 6, 7, 8, 9, 11]) ! row)"
    and "ability_order (r ! (row * 3 + col)) = Some (int col + 1)"
proof -
  have i: "row * 3 + col < length xs" using assms(1,2,3) by simp
  have r: "r = map (\<lambda>(idx, c). c\<lparr>hero_order :=
                     Some ((if side then [0, 1, 2, 3, 4, 10] else [5, 6, 7, 8, 9, 11]) ! (idx div 3)),
                   ability_order := Some (int (idx mod 3) + 1)\<rparr>) (enumerate 0 xs)"
    using apply_standard_18[OF assms(1), of side] assms(4) by simp
  show "hero_order (r ! (row * 3 + col)) =
           Some ((if side then [0, 1, 2, 3, 4, 10] else [5, 6, 7, 8, 9, 11]) ! row)"
    unfolding r using i by (simp add: nth_enumerate_eq row_col_div[OF assms(3)] del: mult_Suc_right)
  show "ability_order (r ! (row * 3 + col)) = Some (int col + 1)"
    unfolding r using i assms(3) by (simp add: nth_enumerate_eq)
qed

lemma stamp6_elements:
  assumes "length orders = 6" and "length cs = 6"
  shows "stamp_hero_orders orders 0 cs =
     Inr (map (\<lambda>i. (cs ! i)\<lparr>hero_order := Some (orders ! i)\<rparr>) [0..<6])"
proof -
  from assms(1) obtain o0 o1 o2 o3 o4 o5 where o: "orders = [o0, o1, o2, o3, o4, o5]"
    by (rule list6)
  from assms(2) obtain c0 c1 c2 c3 c4 c5 where c: "cs = [c0, c1, c2, c3, c4, c5]"
    by (rule list6)
  show ?thesis unfolding o c upt6 by simp
qed

lemma apply_ultimate_6:
  assumes "length cs = 6"
  shows "apply_ultimate_hero_orders cs side =
     Inr (map (\<lambda>i. (cs ! i)\<lparr>hero_order :=
            Some ((if side then [0, 1, 2, 3, 4, 10] else [7, 6, 5, 11, 9, 8]) ! i)\<rparr>) [0..<6])"
  unfolding apply_ultimate_hero_orders_def Let_def
  using assms by (intro stamp6_elements) simp_all

lemma apply_standard_elements:
  assumes "length xs = 18" and "row < 6" and "col < 3"
    and "apply_standard_hero_orders xs side = Inr r"
  shows "r ! (row * 3 + col) =
     (xs ! (row * 3 + col))\<lparr>hero_order :=
        Some ((if side then [0, 1, 2, 3, 4, 10] else [5, 6, 7, 8, 9, 11]) ! row),
        ability_order := Some (int col + 1)\<rparr>"
proof -
  have i: "row * 3 + col < length xs" using assms(1,2,3) by simp
  have r: "r = map (\<lambda>(idx, c). c\<lparr>hero_order :=
                     Some ((if side then [0, 1, 2, 3, 4, 10] else [5, 6, 7, 8, 9, 11]) ! (idx div 3)),
                   ability_order := Some (int (idx mod 3) + 1)\<rparr>) (enumerate 0 xs)"
    using apply_standard_18[OF assms(1), of side] assms(4) by simp
  have d: "(row * 3 + col) div 3 = row" by (rule row_col_div[OF assms(3)])
  have m: "(row * 3 + col) mod 3 = col" using assms(3) by simp
  have "r ! (row * 3 + col) =
     (xs ! (row * 3 + col))\<lparr>hero_order :=
        Some ((if side then [0, 1, 2, 3, 4, 10] else [5, 6, 7, 8, 9, 11]) ! ((row * 3 + col) div 3)),
        ability_order := Some (int ((row * 3 + col) mod 3) + 1)\<rparr>"
    unfolding r using i by (simp add: nth_enumerate_eq del: mult_Suc_right)
  then show ?thesis unfolding d m .
qed

text \<open>
  C2. Stamping six capstone rectangles returns the same six rectangles in the same order,
  each unchanged but for its identity: the rectangle at position \<open>i\<close> gets
  \<open>[0,1,2,3,4,10][i]\<close> on the left side and \<open>[7,6,5,11,9,8][i]\<close> on the right side.
  Stamping eighteen standard rectangles returns the same eighteen rectangles in the same
  order, each unchanged but for its identity and slot order: the rectangle of row \<open>row\<close>
  and column \<open>col\<close> (position \<open>row * 3 + col\<close>) gets the identity \<open>[0,1,2,3,4,10][row]\<close> on
  the left, \<open>[5,6,7,8,9,11][row]\<close> on the right, and the slot order \<open>col + 1\<close> on both sides.
\<close>

theorem identity_stamping_tables:
  assumes "length ultimates = 6" and "length standards = 18"
  shows "(\<exists>l r. apply_ultimate_hero_orders ultimates True = Inr l
            \<and> apply_ultimate_hero_orders ultimates False = Inr r
            \<and> length l = 6 \<and> length r = 6
            \<and> (\<forall>i < 6.
                  l ! i = (ultimates ! i)\<lparr>hero_order := Some ([0, 1, 2, 3, 4, 10] ! i)\<rparr>
                \<and> r ! i = (ultimates ! i)\<lparr>hero_order := Some ([7, 6, 5, 11, 9, 8] ! i)\<rparr>)
            \<and> map hero_order l = [Some 0, Some 1, Some 2, Some 3, Some 4, Some 10]
            \<and> map hero_order r = [Some 7, Some 6, Some 5, Some 11, Some 9, Some 8])
    \<and> (\<exists>l r. apply_standard_hero_orders standards True = Inr l
            \<and> apply_standard_hero_orders standards False = Inr r
            \<and> length l = 18 \<and> length r = 18
            \<and> (\<forall>row < 6. \<forall>col < 3.
                  l ! (row * 3 + col) =
                    (standards ! (row * 3 + col))\<lparr>hero_order := Some ([0, 1, 2, 3, 4, 10] ! row),
                       ability_order := Some (int col + 1)\<rparr>
                \<and> r ! (row * 3 + col) =
                    (standards ! (row * 3 + col))\<lparr>hero_order := Some ([5, 6, 7, 8, 9, 11] ! row),
                       ability_order := Some (int col + 1)\<rparr>
                \<and> hero_order (l ! (row * 3 + col)) = Some ([0, 1, 2, 3, 4, 10] ! row)
                \<and> hero_order (r ! (row * 3 + col)) = Some ([5, 6, 7, 8, 9, 11] ! row)
                \<and> ability_order (l ! (row * 3 + col)) = Some (int col + 1)
                \<and> ability_order (r ! (row * 3 + col)) = Some (int col + 1)))"
proof (rule conjI)
  define l where "l = map (\<lambda>i. (ultimates ! i)\<lparr>hero_order := Some ([0, 1, 2, 3, 4, 10] ! i)\<rparr>) [0..<6]"
  define r where "r = map (\<lambda>i. (ultimates ! i)\<lparr>hero_order := Some ([7, 6, 5, 11, 9, 8] ! i)\<rparr>) [0..<6]"
  have al: "apply_ultimate_hero_orders ultimates True = Inr l"
    using apply_ultimate_6[OF assms(1), of True] by (simp add: l_def)
  have ar: "apply_ultimate_hero_orders ultimates False = Inr r"
    using apply_ultimate_6[OF assms(1), of False] by (simp add: r_def)
  have len: "length l = 6" "length r = 6" by (simp_all add: l_def r_def)
  have el: "\<forall>i < 6.
                  l ! i = (ultimates ! i)\<lparr>hero_order := Some ([0, 1, 2, 3, 4, 10] ! i)\<rparr>
                \<and> r ! i = (ultimates ! i)\<lparr>hero_order := Some ([7, 6, 5, 11, 9, 8] ! i)\<rparr>"
    by (simp add: l_def r_def)
  have ml: "map hero_order l = [Some 0, Some 1, Some 2, Some 3, Some 4, Some 10]"
    unfolding l_def upt6 by simp
  have mr: "map hero_order r = [Some 7, Some 6, Some 5, Some 11, Some 9, Some 8]"
    unfolding r_def upt6 by simp
  from al ar len el ml mr
  show "\<exists>l r. apply_ultimate_hero_orders ultimates True = Inr l
            \<and> apply_ultimate_hero_orders ultimates False = Inr r
            \<and> length l = 6 \<and> length r = 6
            \<and> (\<forall>i < 6.
                  l ! i = (ultimates ! i)\<lparr>hero_order := Some ([0, 1, 2, 3, 4, 10] ! i)\<rparr>
                \<and> r ! i = (ultimates ! i)\<lparr>hero_order := Some ([7, 6, 5, 11, 9, 8] ! i)\<rparr>)
            \<and> map hero_order l = [Some 0, Some 1, Some 2, Some 3, Some 4, Some 10]
            \<and> map hero_order r = [Some 7, Some 6, Some 5, Some 11, Some 9, Some 8]"
    by (intro exI[of _ l] exI[of _ r] conjI)
next
  obtain l where l: "apply_standard_hero_orders standards True = Inr l"
    using apply_standard_18[OF assms(2), of True] by blast
  obtain r where r: "apply_standard_hero_orders standards False = Inr r"
    using apply_standard_18[OF assms(2), of False] by blast
  have len: "length l = 18" "length r = 18"
    using apply_standard_18[OF assms(2), of True] apply_standard_18[OF assms(2), of False]
      l r assms(2) by auto
  have "\<forall>row < 6. \<forall>col < 3.
                  l ! (row * 3 + col) =
                    (standards ! (row * 3 + col))\<lparr>hero_order := Some ([0, 1, 2, 3, 4, 10] ! row),
                       ability_order := Some (int col + 1)\<rparr>
                \<and> r ! (row * 3 + col) =
                    (standards ! (row * 3 + col))\<lparr>hero_order := Some ([5, 6, 7, 8, 9, 11] ! row),
                       ability_order := Some (int col + 1)\<rparr>
                \<and> hero_order (l ! (row * 3 + col)) = Some ([0, 1, 2, 3, 4, 10] ! row)
                \<and> hero_order (r ! (row * 3 + col)) = Some ([5, 6, 7, 8, 9, 11] ! row)
                \<and> ability_order (l ! (row * 3 + col)) = Some (int col + 1)
                \<and> ability_order (r ! (row * 3 + col)) = Some (int col + 1)"
    using apply_standard_elements[OF assms(2) _ _ l] apply_standard_elements[OF assms(2) _ _ r]
      apply_standard_nth[OF assms(2) _ _ l] apply_standard_nth[OF assms(2) _ _ r]
    by simp
  with l r len show "\<exists>l r. apply_standard_hero_orders standards True = Inr l
            \<and> apply_standard_hero_orders standards False = Inr r
            \<and> length l = 18 \<and> length r = 18
            \<and> (\<forall>row < 6. \<forall>col < 3.
                  l ! (row * 3 + col) =
                    (standards ! (row * 3 + col))\<lparr>hero_order := Some ([0, 1, 2, 3, 4, 10] ! row),
                       ability_order := Some (int col + 1)\<rparr>
                \<and> r ! (row * 3 + col) =
                    (standards ! (row * 3 + col))\<lparr>hero_order := Some ([5, 6, 7, 8, 9, 11] ! row),
                       ability_order := Some (int col + 1)\<rparr>
                \<and> hero_order (l ! (row * 3 + col)) = Some ([0, 1, 2, 3, 4, 10] ! row)
                \<and> hero_order (r ! (row * 3 + col)) = Some ([5, 6, 7, 8, 9, 11] ! row)
                \<and> ability_order (l ! (row * 3 + col)) = Some (int col + 1)
                \<and> ability_order (r ! (row * 3 + col)) = Some (int col + 1))"
    by (intro exI[of _ l] exI[of _ r] conjI)
qed

theorem identity_stamping_tables_witness:
  "projr (apply_ultimate_hero_orders
     (map (\<lambda>k. Coord_of \<lparr>rect_x = 100 * int k, rect_y = 5, rect_width = 50, rect_height = 20\<rparr>)
        [0..<6]) False) ! 2
     = \<lparr>x = 200, y = 5, width = Some 50, height = Some 20, hero_order = Some 5,
        ability_order = None, is_ultimate = None\<rparr>
   \<and> projr (apply_standard_hero_orders
     (map (\<lambda>k. Coord_of \<lparr>rect_x = 100 * int k, rect_y = 5, rect_width = 50, rect_height = 20\<rparr>)
        [0..<18]) True) ! (5 * 3 + 2)
     = \<lparr>x = 1700, y = 5, width = Some 50, height = Some 20, hero_order = Some 10,
        ability_order = Some 3, is_ultimate = None\<rparr>"
proof -
  let ?f = "\<lambda>k. Coord_of \<lparr>rect_x = 100 * int k, rect_y = 5, rect_width = 50, rect_height = 20\<rparr>"
  have l6: "length (map ?f [0..<6]) = 6" and l18: "length (map ?f [0..<18]) = 18" by simp_all
  from identity_stamping_tables[OF l6 l18]
  obtain r l' where
    u: "apply_ultimate_hero_orders (map ?f [0..<6]) False = Inr r"
    and ue: "\<forall>i < 6. r ! i = (map ?f [0..<6] ! i)\<lparr>hero_order := Some ([7, 6, 5, 11, 9, 8] ! i)\<rparr>"
    and s: "apply_standard_hero_orders (map ?f [0..<18]) True = Inr l'"
    and se: "\<forall>row < 6. \<forall>col < 3.
                  l' ! (row * 3 + col) =
                    (map ?f [0..<18] ! (row * 3 + col))\<lparr>hero_order := Some ([0, 1, 2, 3, 4, 10] ! row),
                       ability_order := Some (int col + 1)\<rparr>"
    by blast
  from ue[rule_format, of 2] have a: "r ! 2 =
      \<lparr>x = 200, y = 5, width = Some 50, height = Some 20, hero_order = Some 5,
        ability_order = None, is_ultimate = None\<rparr>"
    by (simp add: Coord_of_def)
  from se[rule_format, of 5 2] have b: "l' ! (5 * 3 + 2) =
      \<lparr>x = 1700, y = 5, width = Some 50, height = Some 20, hero_order = Some 10,
        ability_order = Some 3, is_ultimate = None\<rparr>"
    by (simp add: Coord_of_def)
  from a b show ?thesis unfolding u s by simp
qed

section \<open>Generation of the left side\<close>

lemma upt4: "[0..<4] = [0, 1, 2, 3]" by (simp add: upt_rec)

lemma generate_heroes_explicit:
  "generate_heroes hero0 hero1 hp =
     [\<lparr>x = rect_x hero0, y = rect_y hero0, width = None, height = None,
       hero_order = Some 0, ability_order = None, is_ultimate = None\<rparr>,
      \<lparr>x = rect_x hero1, y = rect_y hero1, width = None, height = None,
       hero_order = Some 1, ability_order = None, is_ultimate = None\<rparr>,
      \<lparr>x = rect_x hero0, y = rect_y hero1 + 1 * (rect_y hero1 - rect_y hero0), width = None,
       height = None, hero_order = Some 2, ability_order = None, is_ultimate = None\<rparr>,
      \<lparr>x = rect_x hero0, y = rect_y hero1 + 2 * (rect_y hero1 - rect_y hero0), width = None,
       height = None, hero_order = Some 3, ability_order = None, is_ultimate = None\<rparr>,
      \<lparr>x = rect_x hero0, y = rect_y hero1 + 3 * (rect_y hero1 - rect_y hero0), width = None,
       height = None, hero_order = Some 4, ability_order = None, is_ultimate = None\<rparr>]"
  by (simp add: generate_heroes_def calculate_hero_spacing_def)

lemma less5: "p < 5 \<Longrightarrow> p = 0 \<or> p = 1 \<or> p = 2 \<or> p = 3 \<or> p = (4::nat)" by arith
lemma less4: "j < 4 \<Longrightarrow> j = 0 \<or> j = 1 \<or> j = 2 \<or> j = (3::nat)" by arith

lemma generate_selected_nth:
  assumes "length heroes = 5" and "p < 5" and "j < 4"
  shows "\<exists>sel. generate_selected_abilities a1 a2 heroes sp = Inr sel \<and> length sel = 20
     \<and> sel ! (p * 4 + j) =
         \<lparr>x = rect_x a1 + int j * (rect_x a2 - rect_x a1),
          y = rect_y a1 + (y (heroes ! p) - y (heroes ! 0)), width = None, height = None,
          hero_order = hero_order (heroes ! p), ability_order = None,
          is_ultimate = Some (j = 3)\<rparr>"
proof -
  from assms(1) have "length heroes = Suc (Suc (Suc (Suc (Suc 0))))" by simp
  then obtain h0 h1 h2 h3 h4 where h: "heroes = [h0, h1, h2, h3, h4]"
    by (auto simp: length_Suc_conv)
  show ?thesis
    using less5[OF assms(2)] less4[OF assms(3)] unfolding h generate_selected_abilities_def
      calculate_ability_spacing_def Let_def upt4
    by (elim disjE) simp_all
qed

text \<open>
  C4. From the two hero anchors, \<open>generate_heroes\<close> returns exactly five boxes: the two
  anchors at their own positions, then heroes 2, 3 and 4 in hero 0's column at
  \<open>hero1.y + (k - 1) * (hero1.y - hero0.y)\<close>. From the two ability anchors and these five
  boxes, \<open>generate_selected_abilities\<close> returns exactly twenty slots: slot \<open>j\<close> of hero
  \<open>p\<close> (index \<open>p * 4 + j\<close>) lies at \<open>ability1.x + j * (ability2.x - ability1.x)\<close>, at
  \<open>ability1.y\<close> shifted by the hero's \<open>y\<close> minus hero 0's \<open>y\<close>, carries the identity \<open>p\<close>,
  and is marked as the ultimate slot exactly when \<open>j = 3\<close>.
\<close>

theorem grid_generation_from_anchors:
  "generate_heroes hero0 hero1 hp =
     [\<lparr>x = rect_x hero0, y = rect_y hero0, width = None, height = None,
       hero_order = Some 0, ability_order = None, is_ultimate = None\<rparr>,
      \<lparr>x = rect_x hero1, y = rect_y hero1, width = None, height = None,
       hero_order = Some 1, ability_order = None, is_ultimate = None\<rparr>,
      \<lparr>x = rect_x hero0, y = rect_y hero1 + 1 * (rect_y hero1 - rect_y hero0), width = None,
       height = None, hero_order = Some 2, ability_order = None, is_ultimate = None\<rparr>,
      \<lparr>x = rect_x hero0, y = rect_y hero1 + 2 * (rect_y hero1 - rect_y hero0), width = None,
       height = None, hero_order = Some 3, ability_order = None, is_ultimate = None\<rparr>,
      \<lparr>x = rect_x hero0, y = rect_y hero1 + 3 * (rect_y hero1 - rect_y hero0), width = None,
       height = None, hero_order = Some 4, ability_order = None, is_ultimate = None\<rparr>]
   \<and> (\<exists>sel. generate_selected_abilities ability1 ability2 (generate_heroes hero0 hero1 hp) sp
               = Inr sel
          \<and> length sel = 20
          \<and> (\<forall>p < 5. \<forall>j < 4.
                sel ! (p * 4 + j) =
                  \<lparr>x = rect_x ability1 + int j * (rect_x ability2 - rect_x ability1),
                   y = rect_y ability1 + (y (generate_heroes hero0 hero1 hp ! p) - rect_y hero0),
                   width = None, height = None, hero_order = Some (int p),
                   ability_order = None, is_ultimate = Some (j = 3)\<rparr>))"
proof (rule conjI)
  show "generate_heroes hero0 hero1 hp =
     [\<lparr>x = rect_x hero0, y = rect_y hero0, width = None, height = None,
       hero_order = Some 0, ability_order = None, is_ultimate = None\<rparr>,
      \<lparr>x = rect_x hero1, y = rect_y hero1, width = None, height = None,
       hero_order = Some 1, ability_order = None, is_ultimate = None\<rparr>,
      \<lparr>x = rect_x hero0, y = rect_y hero1 + 1 * (rect_y hero1 - rect_y hero0), width = None,
       height = None, hero_order = Some 2, ability_order = None, is_ultimate = None\<rparr>,
      \<lparr>x = rect_x hero0, y = rect_y hero1 + 2 * (rect_y hero1 - rect_y hero0), width = None,
       height = None, hero_order = Some 3, ability_order = None, is_ultimate = None\<rparr>,
      \<lparr>x = rect_x hero0, y = rect_y hero1 + 3 * (rect_y hero1 - rect_y hero0), width = None,
       height = None, hero_order = Some 4, ability_order = None, is_ultimate = None\<rparr>]"
    by (rule generate_heroes_explicit)
next
  define heroes where "heroes = generate_heroes hero0 hero1 hp"
  have len: "length heroes = 5" unfolding heroes_def generate_heroes_explicit by simp
  have y0: "y (heroes ! 0) = rect_y hero0" unfolding heroes_def generate_heroes_explicit by simp
  have ho: "hero_order (heroes ! p) = Some (int p)" if "p < 5" for p
    using less5[OF that] unfolding heroes_def generate_heroes_explicit by (elim disjE) simp_all
  from generate_selected_nth[OF len, of 0 0 ability1 ability2 sp]
  obtain sel where sel: "generate_selected_abilities ability1 ability2 heroes sp = Inr sel"
    and l: "length sel = 20" by auto
  have "sel ! (p * 4 + j) =
          \<lparr>x = rect_x ability1 + int j * (rect_x ability2 - rect_x ability1),
           y = rect_y ability1 + (y (heroes ! p) - rect_y hero0),
           width = None, height = None, hero_order = Some (int p),
           ability_order = None, is_ultimate = Some (j = 3)\<rparr>" if "p < 5" "j < 4" for p j
    using generate_selected_nth[OF len that, of ability1 ability2 sp] sel
    by (simp add: y0 ho[OF that(1)])
  with sel l show "\<exists>sel. generate_selected_abilities ability1 ability2 (generate_heroes hero0 hero1 hp) sp
               = Inr sel
          \<and> length sel = 20
          \<and> (\<forall>p < 5. \<forall>j < 4.
                sel ! (p * 4 + j) =
                  \<lparr>x = rect_x ability1 + int j * (rect_x ability2 - rect_x ability1),
                   y = rect_y ability1 + (y (generate_heroes hero0 hero1 hp ! p) - rect_y hero0),
                   width = None, height = None, hero_order = Some (int p),
                   ability_order = None, is_ultimate = Some (j = 3)\<rparr>)"
    unfolding heroes_def by simp
qed

theorem grid_generation_witness:
  "projr (generate_selected_abilities
      \<lparr>rect_x = 210, rect_y = 805, rect_width = 20, rect_height = 20\<rparr>
      \<lparr>rect_x = 235, rect_y = 805, rect_width = 20, rect_height = 20\<rparr>
      (generate_heroes \<lparr>rect_x = 100, rect_y = 800, rect_width = 100, rect_height = 30\<rparr>
         \<lparr>rect_x = 100, rect_y = 840, rect_width = 100, rect_height = 30\<rparr>
         \<lparr>params_width = 100, params_height = 30\<rparr>)
      \<lparr>params_width = 20, params_height = 20\<rparr>) ! (4 * 4 + 3)
   = \<lparr>x = 285, y = 965, width = None, height = None, hero_order = Some 4,
      ability_order = None, is_ultimate = Some True\<rparr>"
proof -
  let ?h0 = "\<lparr>rect_x = 100, rect_y = 800, rect_width = 100, rect_height = 30\<rparr>"
  let ?h1 = "\<lparr>rect_x = 100, rect_y = 840, rect_width = 100, rect_height = 30\<rparr>"
  let ?hp = "\<lparr>params_width = 100, params_height = 30\<rparr>"
  let ?a1 = "\<lparr>rect_x = 210, rect_y = 805, rect_width = 20, rect_height = 20\<rparr>"
  let ?a2 = "\<lparr>rect_x = 235, rect_y = 805, rect_width = 20, rect_height = 20\<rparr>"
  let ?sp = "\<lparr>params_width = 20, params_height = 20\<rparr>"
  note t = grid_generation_from_anchors[of ?h0 ?h1 ?hp ?a1 ?a2 ?sp]
  from t obtain sel where
    s: "generate_selected_abilities ?a1 ?a2 (generate_heroes ?h0 ?h1 ?hp) ?sp = Inr sel"
    and a: "\<forall>p < 5. \<forall>j < 4.
                sel ! (p * 4 + j) =
                  \<lparr>x = rect_x ?a1 + int j * (rect_x ?a2 - rect_x ?a1),
                   y = rect_y ?a1 + (y (generate_heroes ?h0 ?h1 ?hp ! p) - rect_y ?h0),
                   width = None, height = None, hero_order = Some (int p),
                   ability_order = None, is_ultimate = Some (j = 3)\<rparr>"
    by blast
  have g: "y (generate_heroes ?h0 ?h1 ?hp ! 4) = 960"
    using t[THEN conjunct1] by simp
  from a[rule_format, of 4 3] g have "sel ! (4 * 4 + 3) =
      \<lparr>x = 285, y = 965, width = None, height = None, hero_order = Some 4,
      ability_order = None, is_ultimate = Some True\<rparr>" by simp
  then show ?thesis using s by simp
qed

section \<open>Validation\<close>

lemma add_error_eq: "add_error e v = add_errors [e] v"
  by (simp add: add_error_def add_errors_def)

lemma add_errors_Nil: "add_errors [] v = v"
  by (simp add: add_errors_def)

lemma add_errors_add_errors: "add_errors es2 (add_errors es1 v) = add_errors (es1 @ es2) v"
  by (simp add: add_errors_def)

lemma fold_add_errors:
  assumes "\<And>a v. a \<in> set as \<Longrightarrow> f a v = add_errors (g a) v"
  shows "fold f as v = add_errors (concat (map g as)) v"
  using assms
proof (induction as arbitrary: v)
  case Nil
  show ?case by (simp add: add_errors_Nil)
next
  case (Cons a as)
  have "fold f (a # as) v = fold f as (add_errors (g a) v)"
    using Cons.prems[of a v] by simp
  also have "\<dots> = add_errors (concat (map g as)) (add_errors (g a) v)"
    by (rule Cons.IH) (simp add: Cons.prems)
  finally show ?case by (simp add: add_errors_add_errors)
qed

lemma check_item_dims_eq:
  "check_item_dims c sw sh p v = add_errors (dims_item_errors c sw sh p) v"
  by (cases p)
    (simp add: check_item_dims_def dims_item_errors_def Let_def add_error_eq
      add_errors_add_errors add_errors_Nil)

lemma check_item_params_eq:
  "check_item_params c ps sw sh p v = add_errors (params_item_errors c ps sw sh p) v"
  by (cases p)
    (simp add: check_item_params_def params_item_errors_def Let_def add_error_eq
      add_errors_add_errors add_errors_Nil)

lemma check_dims_category_eq:
  "check_dims_category cd sw sh c v = add_errors (dims_category_errors cd sw sh c) v"
  by (simp add: check_dims_category_def dims_category_errors_def add_errors_Nil
      fold_add_errors[where g = "dims_item_errors c sw sh"] check_item_dims_eq
      split: option.split)

lemma check_params_category_eq:
  "check_params_category cd sw sh ck v = add_errors (params_category_errors cd sw sh ck) v"
proof (cases ck)
  case (Pair c k)
  show ?thesis
    unfolding Pair
    by (simp add: check_params_category_def params_category_errors_def add_errors_Nil
      fold_add_errors[where g = "params_item_errors c ps sw sh" for ps] check_item_params_eq
      split: option.split)
qed

lemma check_count_int_eq:
  "check_count cd (c, ExpectedInt e) v = add_errors (count_errors cd (c, ExpectedInt e)) v"
  by (simp add: check_count_def count_errors_def add_errors_Nil add_error_eq Let_def
      split: option.split)

lemma check_count_expected_eq:
  assumes "ce \<in> set expected_counts"
  shows "check_count cd ce v = add_errors (count_errors cd ce) v"
proof -
  from assms obtain c e where "ce = (c, ExpectedInt e)"
    by (auto simp: expected_counts_def)
  then show ?thesis by (simp only: check_count_int_eq)
qed

lemma validate_coordinates_closed_form:
  "validate_coordinates cd sw sh =
     \<lparr>passed = (all_errors cd sw sh = []), errors = all_errors cd sw sh, warnings = []\<rparr>"
proof -
  let ?v0 = "\<lparr>passed = True, errors = [], warnings = []\<rparr>"
  have 1: "fold (check_dims_category cd sw sh) categories_with_dims v =
      add_errors (concat (map (dims_category_errors cd sw sh) categories_with_dims)) v" for v
    by (rule fold_add_errors) (rule check_dims_category_eq)
  have 2: "fold (check_params_category cd sw sh) categories_with_params v =
      add_errors (concat (map (params_category_errors cd sw sh) categories_with_params)) v" for v
    by (rule fold_add_errors) (rule check_params_category_eq)
  have 3: "fold (check_count cd) expected_counts v =
      add_errors (concat (map (count_errors cd) expected_counts)) v" for v
    by (rule fold_add_errors) (rule check_count_expected_eq)
  have "validate_coordinates cd sw sh = add_errors (all_errors cd sw sh) ?v0"
    unfolding validate_coordinates_def Let_def 1 2 3 add_errors_add_errors all_errors_def
    by simp
  then show ?thesis by (simp add: add_errors_def)
qed

lemma bex_enumerate0:
  "(\<exists>p \<in> set (enumerate 0 items). P p) \<longleftrightarrow> (\<exists>k < length items. P (k, items ! k))"
proof
  assume "\<exists>p \<in> set (enumerate 0 items). P p"
  then obtain k a where "(k, a) \<in> set (enumerate 0 items)" "P (k, a)" by auto
  then have "k < length items \<and> P (k, items ! k)" by (auto simp: in_set_enumerate_eq)
  then show "\<exists>k < length items. P (k, items ! k)" by blast
next
  assume "\<exists>k < length items. P (k, items ! k)"
  then obtain k where k: "k < length items" "P (k, items ! k)" by blast
  then have "(k, items ! k) \<in> set (enumerate 0 items)" by (simp add: in_set_enumerate_eq)
  with k(2) show "\<exists>p \<in> set (enumerate 0 items). P p" by blast
qed

lemma in_dims_category_errors:
  "e \<in> set (dims_category_errors cd sw sh cat) \<longleftrightarrow>
     (\<exists>items k. regions_of cd cat = Some items \<and> k < length items
        \<and> e \<in> set (dims_item_errors cat sw sh (k, items ! k)))"
proof (cases "regions_of cd cat")
  case None
  then show ?thesis by (simp add: dims_category_errors_def)
next
  case (Some items)
  then show ?thesis by (simp add: dims_category_errors_def bex_enumerate0)
qed

lemma in_params_category_errors:
  "e \<in> set (params_category_errors cd sw sh (cat, key)) \<longleftrightarrow>
     (\<exists>items ps k. regions_of cd cat = Some items \<and> params_of cd key = Some ps
        \<and> k < length items \<and> e \<in> set (params_item_errors cat ps sw sh (k, items ! k)))"
proof (cases "regions_of cd cat")
  case None
  then show ?thesis by (simp add: params_category_errors_def)
next
  case (Some items)
  show ?thesis
  proof (cases "params_of cd key")
    case None
    then show ?thesis using Some by (simp add: params_category_errors_def)
  next
    case (Some ps)
    then show ?thesis using \<open>regions_of cd cat = Some items\<close>
      by (simp add: params_category_errors_def bex_enumerate0)
  qed
qed

lemma in_all_errors:
  "e \<in> set (all_errors cd sw sh) \<longleftrightarrow>
     (\<exists>cat \<in> set categories_with_dims. e \<in> set (dims_category_errors cd sw sh cat))
   \<or> (\<exists>ck \<in> set categories_with_params. e \<in> set (params_category_errors cd sw sh ck))
   \<or> (\<exists>ce \<in> set expected_counts. e \<in> set (count_errors cd ce))"
  unfolding all_errors_def by (simp only: set_append set_concat set_map Un_iff UN_iff bex_simps)

lemma errors_validate: "errors (validate_coordinates cd sw sh) = all_errors cd sw sh"
  by (simp add: validate_coordinates_closed_form)

lemma width_in_dims_item:
  "ExtendsBeyondWidth c i ho \<in> set (dims_item_errors cat sw sh (k, item)) \<longleftrightarrow>
     c = cat \<and> i = k \<and> ho = hero_order item
     \<and> x item + (case width item of Some w \<Rightarrow> w | None \<Rightarrow> 0) > sw"
  by (auto simp: dims_item_errors_def)

lemma height_in_dims_item:
  "ExtendsBeyondHeight c i ho \<in> set (dims_item_errors cat sw sh (k, item)) \<longleftrightarrow>
     c = cat \<and> i = k \<and> ho = hero_order item
     \<and> y item + (case height item of Some h \<Rightarrow> h | None \<Rightarrow> 0) > sh"
  by (auto simp: dims_item_errors_def)

lemma negative_in_dims_item:
  "NegativeCoordinatesXY c i px py \<in> set (dims_item_errors cat sw sh (k, item)) \<longleftrightarrow>
     c = cat \<and> i = k \<and> px = x item \<and> py = y item \<and> (x item < 0 \<or> y item < 0)"
  by (auto simp: dims_item_errors_def)

lemma width_in_params_item:
  "ExtendsBeyondWidth c i ho \<in> set (params_item_errors cat ps sw sh (k, item)) \<longleftrightarrow>
     c = cat \<and> i = k \<and> ho = hero_order item \<and> x item + params_width ps > sw"
  by (auto simp: params_item_errors_def)

lemma height_in_params_item:
  "ExtendsBeyondHeight c i ho \<in> set (params_item_errors cat ps sw sh (k, item)) \<longleftrightarrow>
     c = cat \<and> i = k \<and> ho = hero_order item \<and> y item + params_height ps > sh"
  by (auto simp: params_item_errors_def)

lemma negative_notin_params_item:
  "NegativeCoordinatesXY c i px py \<notin> set (params_item_errors cat ps sw sh (k, item))"
  by (auto simp: params_item_errors_def)

lemma count_errors_cases:
  "e \<in> set (count_errors cd ce) \<Longrightarrow>
     (\<exists>c. e = MissingCategory c) \<or> (\<exists>c n a. e = CountMismatch c n a)"
  by (cases ce) (auto simp: count_errors_def split: option.splits expected.splits if_splits)

lemma width_in_dims_category:
  "ExtendsBeyondWidth c i ho \<in> set (dims_category_errors cd sw sh cat) \<longleftrightarrow>
     c = cat \<and> (\<exists>items. regions_of cd c = Some items \<and> i < length items
              \<and> ho = hero_order (items ! i)
              \<and> x (items ! i) + (case width (items ! i) of Some w \<Rightarrow> w | None \<Rightarrow> 0) > sw)"
  unfolding in_dims_category_errors width_in_dims_item by blast

lemma height_in_dims_category:
  "ExtendsBeyondHeight c i ho \<in> set (dims_category_errors cd sw sh cat) \<longleftrightarrow>
     c = cat \<and> (\<exists>items. regions_of cd c = Some items \<and> i < length items
              \<and> ho = hero_order (items ! i)
              \<and> y (items ! i) + (case height (items ! i) of Some h \<Rightarrow> h | None \<Rightarrow> 0) > sh)"
  unfolding in_dims_category_errors height_in_dims_item by blast

lemma negative_in_dims_category:
  "NegativeCoordinatesXY c i px py \<in> set (dims_category_errors cd sw sh cat) \<longleftrightarrow>
     c = cat \<and> (\<exists>items. regions_of cd c = Some items \<and> i < length items
              \<and> px = x (items ! i) \<and> py = y (items ! i)
              \<and> (x (items ! i) < 0 \<or> y (items ! i) < 0))"
  unfolding in_dims_category_errors negative_in_dims_item by blast

lemma width_in_params_category:
  "ExtendsBeyondWidth c i ho \<in> set (params_category_errors cd sw sh (cat, key)) \<longleftrightarrow>
     c = cat \<and> (\<exists>items ps. regions_of cd c = Some items \<and> params_of cd key = Some ps
              \<and> i < length items \<and> ho = hero_order (items ! i)
              \<and> x (items ! i) + params_width ps > sw)"
  unfolding in_params_category_errors width_in_params_item by blast

lemma height_in_params_category:
  "ExtendsBeyondHeight c i ho \<in> set (params_category_errors cd sw sh (cat, key)) \<longleftrightarrow>
     c = cat \<and> (\<exists>items ps. regions_of cd c = Some items \<and> params_of cd key = Some ps
              \<and> i < length items \<and> ho = hero_order (items ! i)
              \<and> y (items ! i) + params_height ps > sh)"
  unfolding in_params_category_errors height_in_params_item by blast

lemma negative_notin_params_category:
  "NegativeCoordinatesXY c i px py \<notin> set (params_category_errors cd sw sh ck)"
  by (cases ck) (simp add: in_params_category_errors negative_notin_params_item)

lemma width_error_iff:
  "ExtendsBeyondWidth c i ho \<in> set (errors (validate_coordinates cd sw sh)) \<longleftrightarrow>
     (c \<in> set categories_with_dims
        \<and> (\<exists>items. regions_of cd c = Some items \<and> i < length items
              \<and> ho = hero_order (items ! i)
              \<and> x (items ! i) + (case width (items ! i) of Some w \<Rightarrow> w | None \<Rightarrow> 0) > sw))
   \<or> (\<exists>key ps items. (c, key) \<in> set categories_with_params
          \<and> regions_of cd c = Some items \<and> params_of cd key = Some ps \<and> i < length items
          \<and> ho = hero_order (items ! i) \<and> x (items ! i) + params_width ps > sw)"
  (is "?L \<longleftrightarrow> ?D \<or> ?P")
proof -
  have d: "(\<exists>cat \<in> set categories_with_dims.
      ExtendsBeyondWidth c i ho \<in> set (dims_category_errors cd sw sh cat)) \<longleftrightarrow> ?D"
    unfolding width_in_dims_category by blast
  have p: "(\<exists>ck \<in> set categories_with_params.
      ExtendsBeyondWidth c i ho \<in> set (params_category_errors cd sw sh ck)) \<longleftrightarrow> ?P"
    (is "?A \<longleftrightarrow> _")
  proof
    assume ?A
    then obtain cat key where "(cat, key) \<in> set categories_with_params"
      "ExtendsBeyondWidth c i ho \<in> set (params_category_errors cd sw sh (cat, key))"
      by auto
    then show ?P unfolding width_in_params_category by blast
  next
    assume ?P
    then obtain key where "(c, key) \<in> set categories_with_params"
      "ExtendsBeyondWidth c i ho \<in> set (params_category_errors cd sw sh (c, key))"
      unfolding width_in_params_category by blast
    then show ?A by blast
  qed
  have n: "\<not> (\<exists>ce \<in> set expected_counts. ExtendsBeyondWidth c i ho \<in> set (count_errors cd ce))"
    using count_errors_cases by blast
  show ?thesis unfolding errors_validate in_all_errors d p using n by blast
qed

lemma height_error_iff:
  "ExtendsBeyondHeight c i ho \<in> set (errors (validate_coordinates cd sw sh)) \<longleftrightarrow>
     (c \<in> set categories_with_dims
        \<and> (\<exists>items. regions_of cd c = Some items \<and> i < length items
              \<and> ho = hero_order (items ! i)
              \<and> y (items ! i) + (case height (items ! i) of Some h \<Rightarrow> h | None \<Rightarrow> 0) > sh))
   \<or> (\<exists>key ps items. (c, key) \<in> set categories_with_params
          \<and> regions_of cd c = Some items \<and> params_of cd key = Some ps \<and> i < length items
          \<and> ho = hero_order (items ! i) \<and> y (items ! i) + params_height ps > sh)"
  (is "?L \<longleftrightarrow> ?D \<or> ?P")
proof -
  have d: "(\<exists>cat \<in> set categories_with_dims.
      ExtendsBeyondHeight c i ho \<in> set (dims_category_errors cd sw sh cat)) \<longleftrightarrow> ?D"
    unfolding height_in_dims_category by blast
  have p: "(\<exists>ck \<in> set categories_with_params.
      ExtendsBeyondHeight c i ho \<in> set (params_category_errors cd sw sh ck)) \<longleftrightarrow> ?P"
    (is "?A \<longleftrightarrow> _")
  proof
    assume ?A
    then obtain cat key where "(cat, key) \<in> set categories_with_params"
      "ExtendsBeyondHeight c i ho \<in> set (params_category_errors cd sw sh (cat, key))"
      by auto
    then show ?P unfolding height_in_params_category by blast
  next
    assume ?P
    then obtain key where "(c, key) \<in> set categories_with_params"
      "ExtendsBeyondHeight c i ho \<in> set (params_category_errors cd sw sh (c, key))"
      unfolding height_in_params_category by blast
    then show ?A by blast
  qed
  have n: "\<not> (\<exists>ce \<in> set expected_counts. ExtendsBeyondHeight c i ho \<in> set (count_errors cd ce))"
    using count_errors_cases by blast
  show ?thesis unfolding errors_validate in_all_errors d p using n by blast
qed

lemma negative_error_iff:
  "NegativeCoordinatesXY c i px py \<in> set (errors (validate_coordinates cd sw sh)) \<longleftrightarrow>
     c \<in> set categories_with_dims
     \<and> (\<exists>items. regions_of cd c = Some items \<and> i < length items
              \<and> px = x (items ! i) \<and> py = y (items ! i)
              \<and> (x (items ! i) < 0 \<or> y (items ! i) < 0))"
  (is "?L \<longleftrightarrow> ?D")
proof -
  have d: "(\<exists>cat \<in> set categories_with_dims.
      NegativeCoordinatesXY c i px py \<in> set (dims_category_errors cd sw sh cat)) \<longleftrightarrow> ?D"
    unfolding negative_in_dims_category by blast
  have n: "\<not> (\<exists>ce \<in> set expected_counts. NegativeCoordinatesXY c i px py \<in> set (count_errors cd ce))"
    using count_errors_cases by blast
  show ?thesis unfolding errors_validate in_all_errors d
    using n negative_notin_params_category by blast
qed

text \<open>
  C10. The report of \<open>validate_coordinates\<close> never has a warning: the only branch that
  appends one needs a list-valued expected count, and the five expected counts are the
  integers 12, 36, 10, 40 and 12. Its \<open>passed\<close> flag is true exactly when its list of
  errors is empty.
\<close>

theorem validation_report_shape:
  "warnings (validate_coordinates cd sw sh) = []
   \<and> (passed (validate_coordinates cd sw sh) \<longleftrightarrow> errors (validate_coordinates cd sw sh) = [])
   \<and> map snd expected_counts =
        [ExpectedInt 12, ExpectedInt 36, ExpectedInt 10, ExpectedInt 40, ExpectedInt 12]"
  by (simp add: validate_coordinates_closed_form expected_counts_def)

theorem validation_report_shape_witness:
  "warnings (validate_coordinates
         \<lparr>heroes_params = None, selected_abilities_params = None,
          ultimate_slots_coords = Some [\<lparr>x = 1870, y = 1070, width = Some 50, height = Some 20,
             hero_order = None, ability_order = None, is_ultimate = None\<rparr>],
          standard_slots_coords = None, models_coords = None, heroes_coords = None,
          selected_abilities_coords = None\<rparr> 1920 1080) = []
   \<and> passed (validate_coordinates
         \<lparr>heroes_params = None, selected_abilities_params = None,
          ultimate_slots_coords = Some [\<lparr>x = 1870, y = 1070, width = Some 50, height = Some 20,
             hero_order = None, ability_order = None, is_ultimate = None\<rparr>],
          standard_slots_coords = None, models_coords = None, heroes_coords = None,
          selected_abilities_coords = None\<rparr> 1920 1080) = False"
proof -
  let ?cd = "\<lparr>heroes_params = None, selected_abilities_params = None,
          ultimate_slots_coords = Some [\<lparr>x = 1870, y = 1070, width = Some 50, height = Some 20,
             hero_order = None, ability_order = None, is_ultimate = None\<rparr>],
          standard_slots_coords = None, models_coords = None, heroes_coords = None,
          selected_abilities_coords = None\<rparr>"
  note t = validation_report_shape[of ?cd 1920 1080]
  have "MissingCategory ''models_coords'' \<in> set (errors (validate_coordinates ?cd 1920 1080))"
    unfolding errors_validate in_all_errors
    by (simp add: expected_counts_def count_errors_def regions_of_def)
  then have "errors (validate_coordinates ?cd 1920 1080) \<noteq> []" by auto
  with t show ?thesis by blast
qed

lemma dims_not_params:
  "c \<in> set categories_with_dims \<Longrightarrow> (c, key) \<notin> set categories_with_params"
  by (auto simp: categories_with_dims_def categories_with_params_def)

lemma params_key_unique:
  "(c, key) \<in> set categories_with_params \<Longrightarrow> (c, key') \<in> set categories_with_params
   \<Longrightarrow> key' = key"
  by (auto simp: categories_with_params_def)

lemma width_error_dims:
  assumes "c \<in> set categories_with_dims" and "regions_of cd c = Some items"
    and "i < length items"
  shows "ExtendsBeyondWidth c i ho \<in> set (errors (validate_coordinates cd sw sh)) \<longleftrightarrow>
     ho = hero_order (items ! i)
     \<and> x (items ! i) + (case width (items ! i) of Some w \<Rightarrow> w | None \<Rightarrow> 0) > sw"
proof -
  show ?thesis
    unfolding width_error_iff using assms by (simp add: dims_not_params[OF assms(1)])
qed

lemma height_error_dims:
  assumes "c \<in> set categories_with_dims" and "regions_of cd c = Some items"
    and "i < length items"
  shows "ExtendsBeyondHeight c i ho \<in> set (errors (validate_coordinates cd sw sh)) \<longleftrightarrow>
     ho = hero_order (items ! i)
     \<and> y (items ! i) + (case height (items ! i) of Some h \<Rightarrow> h | None \<Rightarrow> 0) > sh"
proof -
  show ?thesis
    unfolding height_error_iff using assms by (simp add: dims_not_params[OF assms(1)])
qed

lemma width_error_params:
  assumes "(c, key) \<in> set categories_with_params" and "regions_of cd c = Some items"
    and "params_of cd key = Some ps" and "i < length items"
  shows "ExtendsBeyondWidth c i ho \<in> set (errors (validate_coordinates cd sw sh)) \<longleftrightarrow>
     ho = hero_order (items ! i) \<and> x (items ! i) + params_width ps > sw"
proof -
  have nd: "c \<notin> set categories_with_dims" using assms(1) dims_not_params by blast
  have "(\<exists>key' ps' items'. (c, key') \<in> set categories_with_params
          \<and> regions_of cd c = Some items' \<and> params_of cd key' = Some ps' \<and> i < length items'
          \<and> ho = hero_order (items' ! i) \<and> x (items' ! i) + params_width ps' > sw)
       \<longleftrightarrow> ho = hero_order (items ! i) \<and> x (items ! i) + params_width ps > sw"
    (is "?A \<longleftrightarrow> ?B")
  proof
    assume ?A
    then obtain key' ps' items' where a: "(c, key') \<in> set categories_with_params"
      "regions_of cd c = Some items'" "params_of cd key' = Some ps'"
      "ho = hero_order (items' ! i)" "x (items' ! i) + params_width ps' > sw" by blast
    have "key' = key" using assms(1) a(1) by (rule params_key_unique)
    then have "ps' = ps" "items' = items" using a(2,3) assms(2,3) by simp_all
    then show ?B using a(4,5) by simp
  next
    assume ?B
    then show ?A using assms by blast
  qed
  then show ?thesis unfolding width_error_iff using nd by simp
qed

lemma height_error_params:
  assumes "(c, key) \<in> set categories_with_params" and "regions_of cd c = Some items"
    and "params_of cd key = Some ps" and "i < length items"
  shows "ExtendsBeyondHeight c i ho \<in> set (errors (validate_coordinates cd sw sh)) \<longleftrightarrow>
     ho = hero_order (items ! i) \<and> y (items ! i) + params_height ps > sh"
proof -
  have nd: "c \<notin> set categories_with_dims" using assms(1) dims_not_params by blast
  have "(\<exists>key' ps' items'. (c, key') \<in> set categories_with_params
          \<and> regions_of cd c = Some items' \<and> params_of cd key' = Some ps' \<and> i < length items'
          \<and> ho = hero_order (items' ! i) \<and> y (items' ! i) + params_height ps' > sh)
       \<longleftrightarrow> ho = hero_order (items ! i) \<and> y (items ! i) + params_height ps > sh"
    (is "?A \<longleftrightarrow> ?B")
  proof
    assume ?A
    then obtain key' ps' items' where a: "(c, key') \<in> set categories_with_params"
      "regions_of cd c = Some items'" "params_of cd key' = Some ps'"
      "ho = hero_order (items' ! i)" "y (items' ! i) + params_height ps' > sh" by blast
    have "key' = key" using assms(1) a(1) by (rule params_key_unique)
    then have "ps' = ps" "items' = items" using a(2,3) assms(2,3) by simp_all
    then show ?B using a(4,5) by simp
  next
    assume ?B
    then show ?A using assms by blast
  qed
  then show ?thesis unfolding height_error_iff using nd by simp
qed

text \<open>
  C9. Let \<open>w\<close> and \<open>h\<close> be the size that applies to region \<open>i\<close> of a category: the
  region's own width and height in a category that stores them per region, the shared
  parameters of the category otherwise. The report has a width entry for the region
  exactly when \<open>x + w\<close> is strictly greater than the screen width, and a height entry
  exactly when \<open>y + h\<close> is strictly greater than the screen height; in particular a region
  with \<open>x + w\<close> equal to the screen width gets no width entry.
\<close>

theorem bounds_validation_is_strict:
  assumes "regions_of cd category = Some items" and "i < length items"
    and "(category \<in> set categories_with_dims
            \<and> width (items ! i) = Some w \<and> height (items ! i) = Some h)
       \<or> (\<exists>key ps. (category, key) \<in> set categories_with_params
            \<and> params_of cd key = Some ps
            \<and> width (items ! i) = None \<and> height (items ! i) = None
            \<and> w = params_width ps \<and> h = params_height ps)"
  shows "((\<exists>ho. ExtendsBeyondWidth category i ho
                 \<in> set (errors (validate_coordinates cd sw sh)))
            \<longleftrightarrow> x (items ! i) + w > sw)
    \<and> ((\<exists>ho. ExtendsBeyondHeight category i ho
                 \<in> set (errors (validate_coordinates cd sw sh)))
            \<longleftrightarrow> y (items ! i) + h > sh)
    \<and> (x (items ! i) + w = sw \<longrightarrow>
          (\<forall>ho. ExtendsBeyondWidth category i ho
                 \<notin> set (errors (validate_coordinates cd sw sh))))"
proof -
  have both: "((\<exists>ho. ExtendsBeyondWidth category i ho
                 \<in> set (errors (validate_coordinates cd sw sh)))
            \<longleftrightarrow> x (items ! i) + w > sw)
     \<and> ((\<exists>ho. ExtendsBeyondHeight category i ho
                 \<in> set (errors (validate_coordinates cd sw sh)))
            \<longleftrightarrow> y (items ! i) + h > sh)"
    using assms(3)
  proof
    assume d: "category \<in> set categories_with_dims
            \<and> width (items ! i) = Some w \<and> height (items ! i) = Some h"
    then have c: "category \<in> set categories_with_dims" by simp
    show ?thesis
      unfolding width_error_dims[OF c assms(1,2)] height_error_dims[OF c assms(1,2)]
      using d by simp
  next
    assume "\<exists>key ps. (category, key) \<in> set categories_with_params
            \<and> params_of cd key = Some ps
            \<and> width (items ! i) = None \<and> height (items ! i) = None
            \<and> w = params_width ps \<and> h = params_height ps"
    then obtain key ps where p: "(category, key) \<in> set categories_with_params"
      "params_of cd key = Some ps" and wh: "w = params_width ps" "h = params_height ps"
      by blast
    show ?thesis
      unfolding width_error_params[OF p(1) assms(1) p(2) assms(2)]
        height_error_params[OF p(1) assms(1) p(2) assms(2)]
      using wh by simp
  qed
  then have "x (items ! i) + w = sw \<longrightarrow>
          (\<forall>ho. ExtendsBeyondWidth category i ho
                 \<notin> set (errors (validate_coordinates cd sw sh)))"
    by auto
  with both show ?thesis by blast
qed

theorem bounds_validation_witness:
  "ExtendsBeyondWidth ''ultimate_slots_coords'' 0 None
     \<notin> set (errors (validate_coordinates
         \<lparr>heroes_params = None, selected_abilities_params = None,
          ultimate_slots_coords = Some [\<lparr>x = 1870, y = 1070, width = Some 50, height = Some 20,
             hero_order = None, ability_order = None, is_ultimate = None\<rparr>],
          standard_slots_coords = None, models_coords = None, heroes_coords = None,
          selected_abilities_coords = None\<rparr> 1920 1080))
   \<and> ExtendsBeyondHeight ''ultimate_slots_coords'' 0 None
     \<in> set (errors (validate_coordinates
         \<lparr>heroes_params = None, selected_abilities_params = None,
          ultimate_slots_coords = Some [\<lparr>x = 1870, y = 1070, width = Some 50, height = Some 20,
             hero_order = None, ability_order = None, is_ultimate = None\<rparr>],
          standard_slots_coords = None, models_coords = None, heroes_coords = None,
          selected_abilities_coords = None\<rparr> 1920 1080))"
proof -
  let ?item = "\<lparr>x = 1870, y = 1070, width = Some 50, height = Some 20,
             hero_order = None, ability_order = None, is_ultimate = None\<rparr>"
  let ?cd = "\<lparr>heroes_params = None, selected_abilities_params = None,
          ultimate_slots_coords = Some [?item],
          standard_slots_coords = None, models_coords = None, heroes_coords = None,
          selected_abilities_coords = None\<rparr>"
  have r: "regions_of ?cd ''ultimate_slots_coords'' = Some [?item]"
    by (simp add: regions_of_def)
  have k: "(''ultimate_slots_coords'' \<in> set categories_with_dims
            \<and> width ([?item] ! 0) = Some 50 \<and> height ([?item] ! 0) = Some 20)
       \<or> (\<exists>key ps. (''ultimate_slots_coords'', key) \<in> set categories_with_params
            \<and> params_of ?cd key = Some ps
            \<and> width ([?item] ! 0) = None \<and> height ([?item] ! 0) = None
            \<and> 50 = params_width ps \<and> 20 = params_height ps)"
    by (simp add: categories_with_dims_def)
  have l: "0 < length [?item]" by simp
  note t = bounds_validation_is_strict[of ?cd "''ultimate_slots_coords''" "[?item]" 0 50 20 1920 1080,
      OF r l k]
  have eqw: "x ([?item] ! 0) + 50 = 1920" by simp
  have gth: "y ([?item] ! 0) + 20 > 1080" by simp
  from t[THEN conjunct2, THEN conjunct2] eqw
  have "\<forall>ho. ExtendsBeyondWidth ''ultimate_slots_coords'' 0 ho
     \<notin> set (errors (validate_coordinates ?cd 1920 1080))" by (rule mp)
  then have a: "ExtendsBeyondWidth ''ultimate_slots_coords'' 0 None
     \<notin> set (errors (validate_coordinates ?cd 1920 1080))" by (rule spec)
  from t[THEN conjunct2, THEN conjunct1] gth
  have "\<exists>ho. ExtendsBeyondHeight ''ultimate_slots_coords'' 0 ho
     \<in> set (errors (validate_coordinates ?cd 1920 1080))" by (rule iffD2)
  then obtain ho where b: "ExtendsBeyondHeight ''ultimate_slots_coords'' 0 ho
     \<in> set (errors (validate_coordinates ?cd 1920 1080))" by (rule exE)
  have dm: "''ultimate_slots_coords'' \<in> set categories_with_dims"
    by (simp add: categories_with_dims_def)
  have l0: "0 < length [?item]" by simp
  from b have "ho = hero_order ([?item] ! 0)"
    unfolding height_error_dims[OF dm r l0] by (rule conjunct1)
  also have "\<dots> = None" by simp
  finally have "ho = None" .
  with b have "ExtendsBeyondHeight ''ultimate_slots_coords'' 0 None
     \<in> set (errors (validate_coordinates ?cd 1920 1080))" by (simp only:)
  with a show ?thesis by (rule conjI)
qed

section \<open>Parsing the clicked points\<close>

lemma get_point_ok: "idx < length points \<Longrightarrow> get_point points idx = Inr (points ! idx)"
  by (simp add: get_point_def)

lemma parse_slots_short:
  "0 < n \<Longrightarrow> length points < idx + 2 * n \<Longrightarrow> parse_slots conv points idx n = Inl IndexError"
proof (induction n arbitrary: idx)
  case 0
  then show ?case by simp
next
  case (Suc n)
  show ?case
  proof (cases "idx + 1 < length points")
    case False
    then show ?thesis by (simp add: get_point_def)
  next
    case True
    then have n: "0 < n" using Suc.prems(2) by simp
    have "length points < (idx + 2) + 2 * n" using Suc.prems(2) by simp
    from Suc.IH[OF n this] True show ?thesis by (simp add: get_point_def)
  qed
qed

lemma parse_slots_ok:
  "idx + 2 * n \<le> length points \<Longrightarrow>
   parse_slots conv points idx n =
     Inr (map (\<lambda>k. Coord_of (conv (points ! (idx + 2 * k)) (points ! (idx + 2 * k + 1)))) [0..<n])"
proof (induction n arbitrary: idx)
  case 0
  then show ?case by simp
next
  case (Suc n)
  have a: "idx < length points" "idx + 1 < length points" using Suc.prems by simp_all
  have "(idx + 2) + 2 * n \<le> length points" using Suc.prems by simp
  from Suc.IH[OF this] have r: "parse_slots conv points (idx + 2) n =
     Inr (map (\<lambda>k. Coord_of (conv (points ! (idx + 2 + 2 * k)) (points ! (idx + 2 + 2 * k + 1)))) [0..<n])" .
  have m: "map (\<lambda>k. Coord_of (conv (points ! (idx + 2 * k)) (points ! (idx + 2 * k + 1)))) [0..<Suc n]
     = Coord_of (conv (points ! idx) (points ! (idx + 1))) #
       map (\<lambda>k. Coord_of (conv (points ! (idx + 2 + 2 * k)) (points ! (idx + 2 + 2 * k + 1)))) [0..<n]"
    by (simp add: upt_conv_Cons map_Suc_upt[symmetric] del: upt_Suc)
  show ?case
    unfolding parse_slots.simps get_point_ok[OF a(1)] get_point_ok[OF a(2)] r m bindE_Inr
    by (rule refl)
qed

lemma parse_slots_Inr_length: "parse_slots conv points idx n = Inr cs \<Longrightarrow> length cs = n"
  by (induction n arbitrary: idx cs) (auto simp: bindE_eq_Inr)

text \<open>
  C8 (amended). With fewer than the 68 points it reads, \<open>calculate_coordinates_from_clicks\<close>
  raises IndexError at the first point it misses and returns no dictionary at all, hence
  no partial group of any category.
\<close>

theorem short_input_raises_index_error:
  assumes "length points < 68"
  shows "calculate_coordinates_from_clicks points screen_width = Inl IndexError"
proof -
  consider (a) "length points < 12" | (b) "12 \<le> length points" "length points < 48"
    | (c) "48 \<le> length points" "length points < 60"
    | (d) "60 \<le> length points" "length points < 68"
    using assms by linarith
  then show ?thesis
  proof cases
    case a
    then have "parse_slots calculate_from_bottom_left_top_right points 0 6 = Inl IndexError"
      by (intro parse_slots_short) simp_all
    then show ?thesis by (simp add: calculate_coordinates_from_clicks_def)
  next
    case b
    have 1: "\<exists>u. parse_slots calculate_from_bottom_left_top_right points 0 6 = Inr u"
      using parse_slots_ok[of 0 6 points] b by simp
    have "parse_slots calculate_from_top_left_bottom_right points 12 18 = Inl IndexError"
      using b by (intro parse_slots_short) simp_all
    with 1 show ?thesis by (auto simp: calculate_coordinates_from_clicks_def)
  next
    case c
    have 1: "\<exists>u. parse_slots calculate_from_bottom_left_top_right points 0 6 = Inr u"
      using parse_slots_ok[of 0 6 points] c by simp
    have 2: "\<exists>u. parse_slots calculate_from_top_left_bottom_right points 12 18 = Inr u"
      using parse_slots_ok[of 12 18 points] c by simp
    have "parse_slots calculate_from_top_left_bottom_right points 48 6 = Inl IndexError"
      using c by (intro parse_slots_short) simp_all
    with 1 2 show ?thesis by (auto simp: calculate_coordinates_from_clicks_def)
  next
    case d
    have 1: "\<exists>u. parse_slots calculate_from_bottom_left_top_right points 0 6 = Inr u"
      using parse_slots_ok[of 0 6 points] d by simp
    have 2: "\<exists>u. parse_slots calculate_from_top_left_bottom_right points 12 18 = Inr u"
      using parse_slots_ok[of 12 18 points] d by simp
    have 3: "\<exists>u. parse_slots calculate_from_top_left_bottom_right points 48 6 = Inr u"
      using parse_slots_ok[of 48 6 points] d by simp
    from 1 2 3 d show ?thesis
      by (auto simp: calculate_coordinates_from_clicks_def get_point_def Let_def)
  qed
qed

theorem short_input_witness:
  "calculate_coordinates_from_clicks [(10, 120), (60, 100)] 1920 = Inl IndexError"
  using short_input_raises_index_error[of "[(10, 120), (60, 100)]" 1920] by simp

text \<open>
  The exception is a plain IndexError whatever the category that falls short: an empty
  input (the first category lacks all its points) and an input of 67 points (the last
  category lacks one) raise the same value, and its class is not \<open>InsufficientInputError\<close>.
\<close>

theorem short_input_counterexample:
  "calculate_coordinates_from_clicks [] 1920 = Inl IndexError
   \<and> calculate_coordinates_from_clicks (replicate 67 (0, 0)) 1920 = Inl IndexError
   \<and> exception_name IndexError \<noteq> ''InsufficientInputError''"
proof -
  have a: "parse_slots calculate_from_bottom_left_top_right [] 0 6 = Inl IndexError"
    by (intro parse_slots_short) simp_all
  have 1: "\<exists>u. parse_slots calculate_from_bottom_left_top_right (replicate 67 (0, 0)) 0 6 = Inr u"
    using parse_slots_ok[of 0 6 "replicate 67 (0, 0)"] by simp
  have 2: "\<exists>u. parse_slots calculate_from_top_left_bottom_right (replicate 67 (0, 0)) 12 18 = Inr u"
    using parse_slots_ok[of 12 18 "replicate 67 (0, 0)"] by simp
  have 3: "\<exists>u. parse_slots calculate_from_top_left_bottom_right (replicate 67 (0, 0)) 48 6 = Inr u"
    using parse_slots_ok[of 48 6 "replicate 67 (0, 0)"] by simp
  from 1 2 3 have b: "calculate_coordinates_from_clicks (replicate 67 (0, 0)) 1920 = Inl IndexError"
    by (auto simp: calculate_coordinates_from_clicks_def get_point_def Let_def)
  from a b show ?thesis by (simp add: calculate_coordinates_from_clicks_def)
qed

section \<open>The whole pipeline\<close>

lemma stamp_hero_orders_length:
  "stamp_hero_orders orders i cs = Inr r \<Longrightarrow> length r = length cs"
  by (induction cs arbitrary: i r) (auto simp: bindE_eq_Inr split: if_splits)

lemma foldE_invariant:
  assumes "foldE f as s = Inr s'" and "P s"
    and "\<And>a t t'. P t \<Longrightarrow> f a t = Inr t' \<Longrightarrow> P t'"
  shows "P s'"
  using assms(1,2)
proof (induction as arbitrary: s)
  case Nil
  then show ?case by simp
next
  case (Cons a as)
  from Cons.prems(1) obtain t where t: "f a s = Inr t" "foldE f as t = Inr s'"
    by (auto simp: bindE_eq_Inr)
  from assms(3)[OF Cons.prems(2) t(1)] have "P t" .
  from Cons.IH[OF t(2) this] show ?case .
qed

lemma stamp_standard_length:
  "stamp_standard tbl row col s = Inr s' \<Longrightarrow> length s' = length s"
  by (auto simp: stamp_standard_def Let_def split: if_splits)

lemma apply_standard_length:
  assumes "apply_standard_hero_orders xs side = Inr r"
  shows "length r = length xs"
proof -
  let ?tbl = "if side then [0, 1, 2, 3, 4, 10] else [5, 6, 7, 8, 9, 11]"
  have row: "length t' = length xs"
    if "length t = length xs" "foldE (stamp_standard ?tbl row) [0..<3] t = Inr t'" for row t t'
    using that(2) that(1)
  proof (rule foldE_invariant[where P = "\<lambda>s. length s = length xs"])
    fix a u u'
    assume "length u = length xs" "stamp_standard ?tbl row a u = Inr u'"
    then show "length u' = length xs" using stamp_standard_length by metis
  qed
  from assms have "foldE (\<lambda>row_idx. foldE (stamp_standard ?tbl row_idx) [0..<3]) [0..<6] xs = Inr r"
    unfolding apply_standard_hero_orders_def Let_def .
  then show ?thesis
  proof (rule foldE_invariant[where P = "\<lambda>s. length s = length xs"])
    show "length xs = length xs" by (rule refl)
  next
    fix a t t'
    assume "length t = length xs" "foldE (stamp_standard ?tbl a) [0..<3] t = Inr t'"
    then show "length t' = length xs" by (rule row)
  qed
qed

lemma generate_heroes_length: "length (generate_heroes hero0 hero1 hp) = 5"
  by (simp add: generate_heroes_def Let_def)

lemma apply_ultimate_length:
  "apply_ultimate_hero_orders cs side = Inr r \<Longrightarrow> length r = length cs"
  unfolding apply_ultimate_hero_orders_def Let_def by (rule stamp_hero_orders_length)

lemma generate_selected_length:
  assumes "generate_selected_abilities a1 a2 heroes sp = Inr sel"
  shows "length sel = 4 * length heroes"
proof (cases heroes)
  case Nil
  then show ?thesis using assms by (simp add: generate_selected_abilities_def Let_def)
next
  case (Cons h hs)
  note e = assms[unfolded generate_selected_abilities_def Let_def Cons list.case sum.inject,
      symmetric]
  have "length sel = sum_list (map (\<lambda>hero. 4) (h # hs))"
    by (subst e) (simp only: length_concat map_map comp_def length_map length_upt diff_zero)
  then show ?thesis unfolding Cons by (simp add: sum_list_triv)
qed

lemma calculate_Inr_counts_all:
  "\<forall>cd. calculate_coordinates_from_clicks points screen_width = Inr cd \<longrightarrow>
      map_option length (ultimate_slots_coords cd) = Some 12
    \<and> map_option length (standard_slots_coords cd) = Some 36
    \<and> map_option length (models_coords cd) = Some 12
    \<and> map_option length (heroes_coords cd) = Some 10
    \<and> map_option length (selected_abilities_coords cd) = Some 40"
  unfolding calculate_coordinates_from_clicks_def Let_def bindE_eq_Inr
  apply (intro allI impI)
  apply (elim exE conjE)
  apply (drule parse_slots_Inr_length)+
  apply (drule apply_ultimate_length)+
  apply (drule apply_standard_length)+
  apply (drule stamp_hero_orders_length)
  apply (drule mirror_elements_length)+
  apply (drule generate_selected_length)
  apply (simp only: sum.inject)
  apply hypsubst
  apply (thin_tac "get_point _ _ = _")+
  apply (simp only: generate_heroes_length coords.select_convs option.map length_map
      length_append)
  apply simp
  done

lemma calculate_Inr_counts:
  assumes "calculate_coordinates_from_clicks points screen_width = Inr cd"
  shows "map_option length (ultimate_slots_coords cd) = Some 12
    \<and> map_option length (standard_slots_coords cd) = Some 36
    \<and> map_option length (models_coords cd) = Some 12
    \<and> map_option length (heroes_coords cd) = Some 10
    \<and> map_option length (selected_abilities_coords cd) = Some 40"
  using calculate_Inr_counts_all assms by blast

lemma mirror_safeI:
  assumes "\<bar>sw\<bar> \<le> 2 ^ 49" and "\<bar>x e\<bar> \<le> 7 * 2 ^ 49"
    and "(if hasd then width e else Some ew) = Some w" and "\<bar>w\<bar> \<le> 2 * 2 ^ 49"
  shows "mirror_safe sw hasd ew e"
proof -
  have "\<bar>sw\<bar> \<le> 2 ^ 53 \<and> \<bar>x e\<bar> \<le> 2 ^ 53 \<and> \<bar>w\<bar> \<le> 2 ^ 53
          \<and> \<bar>sw - x e\<bar> \<le> 2 ^ 53 \<and> \<bar>sw - x e - w\<bar> \<le> 2 ^ 53"
    using assms(1,2,4) by simp linarith
  then show ?thesis unfolding mirror_safe_def assms(3) by simp
qed

lemma stamp_hero_orders_preserves:
  "stamp_hero_orders orders i cs = Inr r \<Longrightarrow> e \<in> set r \<Longrightarrow>
   \<exists>e0 \<in> set cs. x e = x e0 \<and> width e = width e0"
proof (induction cs arbitrary: i r)
  case Nil
  then show ?case by simp
next
  case (Cons c cs)
  from Cons.prems(1) obtain rest where rest: "stamp_hero_orders orders (Suc i) cs = Inr rest"
    and r: "r = c\<lparr>hero_order := Some (orders ! i)\<rparr> # rest"
    by (auto simp: bindE_eq_Inr split: if_splits)
  from Cons.prems(2) r consider "e = c\<lparr>hero_order := Some (orders ! i)\<rparr>" | "e \<in> set rest"
    by auto
  then show ?case
  proof cases
    case 1
    then show ?thesis by simp
  next
    case 2
    from Cons.IH[OF rest 2] show ?thesis by auto
  qed
qed

lemma apply_ultimate_preserves:
  "apply_ultimate_hero_orders cs side = Inr r \<Longrightarrow> e \<in> set r \<Longrightarrow>
   \<exists>e0 \<in> set cs. x e = x e0 \<and> width e = width e0"
  unfolding apply_ultimate_hero_orders_def Let_def by (rule stamp_hero_orders_preserves)

lemma apply_standard_preserves:
  assumes "length xs = 18" and "apply_standard_hero_orders xs side = Inr r" and "e \<in> set r"
  shows "\<exists>e0 \<in> set xs. x e = x e0 \<and> width e = width e0"
proof -
  from apply_standard_18[OF assms(1), of side] assms(2)
  have r: "r = map (\<lambda>(idx, c). c\<lparr>hero_order :=
                     Some ((if side then [0, 1, 2, 3, 4, 10] else [5, 6, 7, 8, 9, 11]) ! (idx div 3)),
                   ability_order := Some (int (idx mod 3) + 1)\<rparr>) (enumerate 0 xs)"
    by simp
  from assms(3) obtain idx c where "(idx, c) \<in> set (enumerate 0 xs)"
    "e = c\<lparr>hero_order :=
                     Some ((if side then [0, 1, 2, 3, 4, 10] else [5, 6, 7, 8, 9, 11]) ! (idx div 3)),
                   ability_order := Some (int (idx mod 3) + 1)\<rparr>"
    unfolding r by auto
  then have "c \<in> set xs" "x e = x c" "width e = width c"
    by (auto simp: in_set_enumerate_eq)
  then show ?thesis by blast
qed

lemma parse_slots_elements:
  assumes "idx + 2 * n \<le> length points" and "parse_slots conv points idx n = Inr cs"
    and "e \<in> set cs"
  shows "\<exists>p \<in> set points. \<exists>q \<in> set points. e = Coord_of (conv p q)"
proof -
  from parse_slots_ok[OF assms(1), of conv] assms(2)
  have "cs = map (\<lambda>k. Coord_of (conv (points ! (idx + 2 * k)) (points ! (idx + 2 * k + 1)))) [0..<n]"
    by simp
  with assms(3) obtain k where k: "k < n"
    "e = Coord_of (conv (points ! (idx + 2 * k)) (points ! (idx + 2 * k + 1)))" by auto
  have "idx + 2 * k < length points" "idx + 2 * k + 1 < length points"
    using k(1) assms(1) by simp_all
  then have "points ! (idx + 2 * k) \<in> set points" "points ! (idx + 2 * k + 1) \<in> set points"
    by simp_all
  with k(2) show ?thesis by blast
qed

lemma Coord_of_conv_x_width:
  "x (Coord_of (calculate_from_bottom_left_top_right p q)) = fst p"
  "width (Coord_of (calculate_from_bottom_left_top_right p q)) = Some (fst q - fst p)"
  "x (Coord_of (calculate_from_top_left_bottom_right p q)) = fst p"
  "width (Coord_of (calculate_from_top_left_bottom_right p q)) = Some (fst q - fst p)"
  by (simp_all add: Coord_of_def calculate_from_bottom_left_top_right_def
      calculate_from_top_left_bottom_right_def)

lemma parsed_safe:
  assumes "\<bar>sw\<bar> \<le> 2 ^ 49" and "\<And>p. p \<in> set points \<Longrightarrow> \<bar>fst p\<bar> \<le> 2 ^ 49"
    and "p \<in> set points" and "q \<in> set points"
    and "x e = fst p" and "width e = Some (fst q - fst p)"
  shows "mirror_safe sw True ew e"
proof (rule mirror_safeI[OF assms(1)])
  have p: "\<bar>fst p\<bar> \<le> 2 ^ 49" and q: "\<bar>fst q\<bar> \<le> 2 ^ 49" using assms(2,3,4) by simp_all
  show "\<bar>x e\<bar> \<le> 7 * 2 ^ 49" using p assms(5) by simp
  show "(if True then width e else Some ew) = Some (fst q - fst p)" using assms(6) by simp
  show "\<bar>fst q - fst p\<bar> \<le> 2 * 2 ^ 49" using p q by simp
qed

lemma generate_heroes_elements:
  "e \<in> set (generate_heroes hero0 hero1 hp) \<Longrightarrow> x e = rect_x hero0 \<or> x e = rect_x hero1"
  by (auto simp: generate_heroes_def Let_def)

lemma generate_selected_elements:
  assumes "generate_selected_abilities a1 a2 heroes sp = Inr sel" and "e \<in> set sel"
  shows "\<exists>j < 4. x e = rect_x a1 + int j * (rect_x a2 - rect_x a1)"
proof (cases heroes)
  case Nil
  then show ?thesis using assms by (simp add: generate_selected_abilities_def Let_def)
next
  case (Cons h hs)
  note s = assms(1)[unfolded generate_selected_abilities_def Let_def Cons list.case sum.inject
      calculate_ability_spacing_def, symmetric]
  from assms(2) obtain hero j where "j < 4"
    "x e = x (map (\<lambda>slot_idx. \<lparr>x = rect_x a1 + int slot_idx * (rect_x a2 - rect_x a1), y = rect_y a1,
                   width = None, height = None, hero_order = Some 0, ability_order = None,
                   is_ultimate = Some (slot_idx = 3)\<rparr>) [0..<4] ! j)"
    unfolding s by auto
  then show ?thesis by auto
qed

lemma generate_selected_total:
  "heroes \<noteq> [] \<Longrightarrow> \<exists>sel. generate_selected_abilities a1 a2 heroes sp = Inr sel"
  by (cases heroes) (simp_all add: generate_selected_abilities_def Let_def)

lemma selected_x_bound:
  assumes "\<bar>a\<bar> \<le> (2::int) ^ 49" and "\<bar>b\<bar> \<le> 2 ^ 49" and "j < (4::nat)"
  shows "\<bar>a + int j * (b - a)\<bar> \<le> 7 * 2 ^ 49"
proof -
  from assms(3) consider "j = 0" | "j = 1" | "j = 2" | "j = 3" by linarith
  then show ?thesis using assms(1,2) by cases simp_all
qed

lemma calculate_total:
  assumes len: "length points = 68" and sw: "\<bar>sw\<bar> \<le> 2 ^ 49"
    and pts: "\<And>p. p \<in> set points \<Longrightarrow> \<bar>fst p\<bar> \<le> 2 ^ 49"
  shows "\<exists>cd. calculate_coordinates_from_clicks points sw = Inr cd"
proof -
  let ?A = calculate_from_bottom_left_top_right
  let ?B = calculate_from_top_left_bottom_right
  let ?h0 = "?B (points ! 60) (points ! 61)"
  let ?h1 = "?B (points ! 62) (points ! 63)"
  let ?a1 = "?B (points ! 64) (points ! 65)"
  let ?a2 = "?B (points ! 66) (points ! 67)"
  let ?hp = "\<lparr>params_width = rect_width ?h0, params_height = rect_height ?h0\<rparr>"
  let ?sp = "\<lparr>params_width = rect_width ?a1, params_height = rect_height ?a1\<rparr>"
  let ?lh = "generate_heroes ?h0 ?h1 ?hp"
  have nth: "points ! k \<in> set points" if "k < 68" for k using that len by simp
  have b: "\<bar>fst (points ! k)\<bar> \<le> 2 ^ 49" if "k < 68" for k using pts nth[OF that] .
  obtain lu0 where lu0: "parse_slots ?A points 0 6 = Inr lu0"
    using parse_slots_ok[of 0 6 points ?A] len by simp
  obtain ls0 where ls0: "parse_slots ?B points 12 18 = Inr ls0"
    using parse_slots_ok[of 12 18 points ?B] len by simp
  obtain lm0 where lm0: "parse_slots ?B points 48 6 = Inr lm0"
    using parse_slots_ok[of 48 6 points ?B] len by simp
  have l0: "length lu0 = 6" "length ls0 = 18" "length lm0 = 6"
    using lu0 ls0 lm0 by (auto dest: parse_slots_Inr_length)
  have gp: "get_point points 60 = Inr (points ! 60)" "get_point points 61 = Inr (points ! 61)"
    "get_point points 62 = Inr (points ! 62)" "get_point points 63 = Inr (points ! 63)"
    "get_point points 64 = Inr (points ! 64)" "get_point points 65 = Inr (points ! 65)"
    "get_point points 66 = Inr (points ! 66)" "get_point points 67 = Inr (points ! 67)"
    using len by (simp_all add: get_point_def)
  have "?lh \<noteq> []" using generate_heroes_length[of ?h0 ?h1 ?hp] by auto
  then obtain lsel where lsel: "generate_selected_abilities ?a1 ?a2 ?lh ?sp = Inr lsel"
    using generate_selected_total by blast
  obtain lu where lu: "apply_ultimate_hero_orders lu0 True = Inr lu"
    using stamp6[of "[0, 1, 2, 3, 4, 10]" lu0] l0(1) by (auto simp: apply_ultimate_hero_orders_def)
  obtain ls where ls: "apply_standard_hero_orders ls0 True = Inr ls"
    using apply_standard_18[OF l0(2), of True] by blast
  obtain lm where lm: "stamp_hero_orders [0, 1, 2, 3, 4, 10] 0 lm0 = Inr lm"
    using stamp6[of "[0, 1, 2, 3, 4, 10]" lm0] l0(3) by auto
  have parsed: "mirror_safe sw True 0 e"
    if "e0 \<in> set cs" "x e = x e0" "width e = width e0"
      "parse_slots conv points idx n = Inr cs" "idx + 2 * n \<le> length points"
      "conv = ?A \<or> conv = ?B" for e e0 cs conv idx n
  proof -
    from parse_slots_elements[OF that(5,4,1)] obtain p q where
      pq: "p \<in> set points" "q \<in> set points" "e0 = Coord_of (conv p q)" by blast
    have "x e = fst p" "width e = Some (fst q - fst p)"
      using that(2,3,6) pq(3) by (auto simp: Coord_of_conv_x_width)
    with sw pts pq(1,2) show ?thesis by (rule parsed_safe)
  qed
  have "mirror_safe sw True 0 e" if "e \<in> set lu" for e
  proof -
    from apply_ultimate_preserves[OF lu that] obtain e0 where
      "e0 \<in> set lu0" "x e = x e0" "width e = width e0" by blast
    then show ?thesis using lu0 len by (intro parsed[of e0 lu0 e ?A 0 6]) simp_all
  qed
  then obtain ru0 where ru0: "mirror_elements_to_right lu sw ''ultimates'' True 0 0 = Inr ru0"
    using mirror_elements_safe by blast
  have "length ru0 = 6"
    using mirror_elements_length[OF ru0] apply_ultimate_length[OF lu] l0(1) by simp
  then obtain ru where ru: "apply_ultimate_hero_orders ru0 False = Inr ru"
    using stamp6[of "[7, 6, 5, 11, 9, 8]" ru0] by (auto simp: apply_ultimate_hero_orders_def)
  have "mirror_safe sw True 0 e" if "e \<in> set ls" for e
  proof -
    from apply_standard_preserves[OF l0(2) ls that] obtain e0 where
      "e0 \<in> set ls0" "x e = x e0" "width e = width e0" by blast
    then show ?thesis using ls0 len by (intro parsed[of e0 ls0 e ?B 12 18]) simp_all
  qed
  then obtain rs0 where rs0: "mirror_elements_to_right ls sw ''standards'' True 0 0 = Inr rs0"
    using mirror_elements_safe by blast
  have "length rs0 = 18"
    using mirror_elements_length[OF rs0] apply_standard_length[OF ls] l0(2) by simp
  then obtain rs where rs: "apply_standard_hero_orders rs0 False = Inr rs"
    using apply_standard_18[of rs0 False] by blast
  have "mirror_safe sw True 0 e" if "e \<in> set lm" for e
  proof -
    from stamp_hero_orders_preserves[OF lm that] obtain e0 where
      "e0 \<in> set lm0" "x e = x e0" "width e = width e0" by blast
    then show ?thesis using lm0 len by (intro parsed[of e0 lm0 e ?B 48 6]) simp_all
  qed
  then obtain rm where rm: "mirror_elements_to_right lm sw ''models'' True 0 0 = Inr rm"
    using mirror_elements_safe by blast
  have "mirror_safe sw False (params_width ?hp) e" if "e \<in> set ?lh" for e
  proof (rule mirror_safeI[OF sw])
    from generate_heroes_elements[OF that]
    have "x e = fst (points ! 60) \<or> x e = fst (points ! 62)"
      by (simp add: calculate_from_top_left_bottom_right_def)
    then show "\<bar>x e\<bar> \<le> 7 * 2 ^ 49" using b[of 60] b[of 62] by auto
    show "(if False then width e else Some (params_width ?hp))
        = Some (fst (points ! 61) - fst (points ! 60))"
      by (simp add: calculate_from_top_left_bottom_right_def)
    show "\<bar>fst (points ! 61) - fst (points ! 60)\<bar> \<le> 2 * 2 ^ 49"
      using b[of 60] b[of 61] by simp
  qed
  then obtain rh where rh: "mirror_elements_to_right ?lh sw ''heroes'' False
      (params_width ?hp) (params_height ?hp) = Inr rh"
    using mirror_elements_safe by blast
  have "mirror_safe sw False (params_width ?sp) e" if "e \<in> set lsel" for e
  proof (rule mirror_safeI[OF sw])
    from generate_selected_elements[OF lsel that] obtain j where j: "j < 4"
      "x e = fst (points ! 64) + int j * (fst (points ! 66) - fst (points ! 64))"
      by (auto simp: calculate_from_top_left_bottom_right_def)
    show "\<bar>x e\<bar> \<le> 7 * 2 ^ 49"
      unfolding j(2) using b[of 64] b[of 66] j(1) by (intro selected_x_bound) simp_all
    show "(if False then width e else Some (params_width ?sp))
        = Some (fst (points ! 65) - fst (points ! 64))"
      by (simp add: calculate_from_top_left_bottom_right_def)
    show "\<bar>fst (points ! 65) - fst (points ! 64)\<bar> \<le> 2 * 2 ^ 49"
      using b[of 64] b[of 65] by simp
  qed
  then obtain rsel where rsel: "mirror_elements_to_right lsel sw ''selected_abilities'' False
      (params_width ?sp) (params_height ?sp) = Inr rsel"
    using mirror_elements_safe by blast
  show ?thesis
    by (simp only: calculate_coordinates_from_clicks_def Let_def bindE_Inr lu0 ls0 lm0 gp lsel
        lu ls lm ru0 ru rs0 rs rm rh rsel) blast
qed

lemma calculate_overflow:
  assumes len: "length points = 68" and ov: "int_truediv sw 2 = Inl ex"
  shows "calculate_coordinates_from_clicks points sw = Inl ex"
proof -
  let ?A = calculate_from_bottom_left_top_right
  let ?B = calculate_from_top_left_bottom_right
  let ?h0 = "?B (points ! 60) (points ! 61)"
  let ?h1 = "?B (points ! 62) (points ! 63)"
  let ?a1 = "?B (points ! 64) (points ! 65)"
  let ?a2 = "?B (points ! 66) (points ! 67)"
  let ?hp = "\<lparr>params_width = rect_width ?h0, params_height = rect_height ?h0\<rparr>"
  let ?sp = "\<lparr>params_width = rect_width ?a1, params_height = rect_height ?a1\<rparr>"
  let ?lh = "generate_heroes ?h0 ?h1 ?hp"
  obtain lu0 where lu0: "parse_slots ?A points 0 6 = Inr lu0"
    using parse_slots_ok[of 0 6 points ?A] len by simp
  obtain ls0 where ls0: "parse_slots ?B points 12 18 = Inr ls0"
    using parse_slots_ok[of 12 18 points ?B] len by simp
  obtain lm0 where lm0: "parse_slots ?B points 48 6 = Inr lm0"
    using parse_slots_ok[of 48 6 points ?B] len by simp
  have l0: "length lu0 = 6" "length ls0 = 18" "length lm0 = 6"
    using lu0 ls0 lm0 by (auto dest: parse_slots_Inr_length)
  have gp: "get_point points 60 = Inr (points ! 60)" "get_point points 61 = Inr (points ! 61)"
    "get_point points 62 = Inr (points ! 62)" "get_point points 63 = Inr (points ! 63)"
    "get_point points 64 = Inr (points ! 64)" "get_point points 65 = Inr (points ! 65)"
    "get_point points 66 = Inr (points ! 66)" "get_point points 67 = Inr (points ! 67)"
    using len by (simp_all add: get_point_def)
  have "?lh \<noteq> []" using generate_heroes_length[of ?h0 ?h1 ?hp] by auto
  then obtain lsel where lsel: "generate_selected_abilities ?a1 ?a2 ?lh ?sp = Inr lsel"
    using generate_selected_total by blast
  obtain lu where lu: "apply_ultimate_hero_orders lu0 True = Inr lu"
    using stamp6[of "[0, 1, 2, 3, 4, 10]" lu0] l0(1) by (auto simp: apply_ultimate_hero_orders_def)
  obtain ls where ls: "apply_standard_hero_orders ls0 True = Inr ls"
    using apply_standard_18[OF l0(2), of True] by blast
  obtain lm where lm: "stamp_hero_orders [0, 1, 2, 3, 4, 10] 0 lm0 = Inr lm"
    using stamp6[of "[0, 1, 2, 3, 4, 10]" lm0] l0(3) by auto
  have "length lu = 6" using apply_ultimate_length[OF lu] l0(1) by simp
  then obtain c cs where c: "lu = c # cs" by (cases lu) auto
  have mc: "mirror_coordinate px py w h sw = Inl ex" for px py w h
    by (simp add: mirror_coordinate_def ov)
  have ru0: "mirror_elements_to_right lu sw ''ultimates'' True 0 0 = Inl ex"
    unfolding c by (simp add: mirror_elements_to_right_def mirror_element_def mc)
  show ?thesis
    by (simp only: calculate_coordinates_from_clicks_def Let_def bindE_Inr bindE_Inl lu0 ls0 lm0
        gp lsel lu ls lm ru0)
qed

lemma no_count_errors:
  assumes "map_option length (ultimate_slots_coords cd) = Some 12"
    and "map_option length (standard_slots_coords cd) = Some 36"
    and "map_option length (models_coords cd) = Some 12"
    and "map_option length (heroes_coords cd) = Some 10"
    and "map_option length (selected_abilities_coords cd) = Some 40"
  shows "concat (map (count_errors cd) expected_counts) = []"
  using assms by (auto simp: expected_counts_def count_errors_def regions_of_def)

lemma count_entry_origin:
  assumes "e \<in> set (errors (validate_coordinates cd w h))"
    and "(\<exists>c. e = MissingCategory c) \<or> (\<exists>c n a. e = CountMismatch c n a)"
  shows "e \<in> set (concat (map (count_errors cd) expected_counts))"
proof -
  have d: "e \<notin> set (dims_category_errors cd w h cat)" for cat
    using assms(2) unfolding in_dims_category_errors
    by (auto simp: dims_item_errors_def split: if_splits)
  have p: "e \<notin> set (params_category_errors cd w h ck)" for ck
    using assms(2) by (cases ck) (auto simp: in_params_category_errors params_item_errors_def
        split: if_splits)
  from assms(1) show ?thesis
    unfolding errors_validate all_errors_def using d p by auto
qed

text \<open>
  C5 (amended). For every input of exactly 68 points whose horizontal coordinates, like the
  screen width, have magnitude at most \<open>2^49\<close>, \<open>calculate_coordinates_from_clicks\<close>
  returns a dictionary; and every dictionary it returns, for whatever input, holds exactly
  12 ultimate slots, 36 standard slots, 12 models, 10 heroes and 40 selected-ability slots,
  so that validation reports neither a missing category nor a count mismatch for it. The
  expected counts of the validator are these five totals.
\<close>

theorem count_invariant_within_double_range:
  "(length points = 68 \<and> \<bar>sw\<bar> \<le> 2 ^ 49 \<and> (\<forall>p \<in> set points. \<bar>fst p\<bar> \<le> 2 ^ 49)
      \<longrightarrow> (\<exists>cd. calculate_coordinates_from_clicks points sw = Inr cd))
   \<and> (\<forall>cd. calculate_coordinates_from_clicks points sw = Inr cd \<longrightarrow>
          map_option length (ultimate_slots_coords cd) = Some 12
        \<and> map_option length (standard_slots_coords cd) = Some 36
        \<and> map_option length (models_coords cd) = Some 12
        \<and> map_option length (heroes_coords cd) = Some 10
        \<and> map_option length (selected_abilities_coords cd) = Some 40
        \<and> (\<forall>c n a w h. MissingCategory c \<notin> set (errors (validate_coordinates cd w h))
              \<and> CountMismatch c n a \<notin> set (errors (validate_coordinates cd w h))))
   \<and> expected_counts =
        [(''ultimate_slots_coords'', ExpectedInt 12), (''standard_slots_coords'', ExpectedInt 36),
         (''heroes_coords'', ExpectedInt 10), (''selected_abilities_coords'', ExpectedInt 40),
         (''models_coords'', ExpectedInt 12)]"
proof (intro conjI impI allI)
  assume "length points = 68 \<and> \<bar>sw\<bar> \<le> 2 ^ 49 \<and> (\<forall>p \<in> set points. \<bar>fst p\<bar> \<le> 2 ^ 49)"
  then show "\<exists>cd. calculate_coordinates_from_clicks points sw = Inr cd"
    by (intro calculate_total) simp_all
next
  show "expected_counts =
        [(''ultimate_slots_coords'', ExpectedInt 12), (''standard_slots_coords'', ExpectedInt 36),
         (''heroes_coords'', ExpectedInt 10), (''selected_abilities_coords'', ExpectedInt 40),
         (''models_coords'', ExpectedInt 12)]"
    by (rule expected_counts_def)
next
  fix cd c n a w h
  assume r: "calculate_coordinates_from_clicks points sw = Inr cd"
  note cnt = calculate_Inr_counts[OF r]
  from cnt show "map_option length (ultimate_slots_coords cd) = Some 12" by simp
  from cnt show "map_option length (standard_slots_coords cd) = Some 36" by simp
  from cnt show "map_option length (models_coords cd) = Some 12" by simp
  from cnt show "map_option length (heroes_coords cd) = Some 10" by simp
  from cnt show "map_option length (selected_abilities_coords cd) = Some 40" by simp
  have none: "concat (map (count_errors cd) expected_counts) = []"
    using cnt by (intro no_count_errors) simp_all
  show "MissingCategory c \<notin> set (errors (validate_coordinates cd w h))"
    using count_entry_origin[of "MissingCategory c" cd w h] none by auto
  show "CountMismatch c n a \<notin> set (errors (validate_coordinates cd w h))"
    using count_entry_origin[of "CountMismatch c n a" cd w h] none by auto
qed

theorem count_invariant_witness:
  "\<exists>cd. calculate_coordinates_from_clicks
       [(150, 120), (100, 100), (160, 120), (210, 100), (220, 120), (270, 100), (100, 150), 
       (150, 130), (160, 150), (210, 130), (220, 150), (270, 130), (300, 300), (350, 320), 
       (360, 300), (410, 320), (420, 300), (470, 320), (300, 330), (350, 350), (360, 330), 
       (410, 350), (420, 330), (470, 350), (300, 360), (350, 380), (360, 360), (410, 380), 
       (420, 360), (470, 380), (300, 390), (350, 410), (360, 390), (410, 410), (420, 390), 
       (470, 410), (300, 420), (350, 440), (360, 420), (410, 440), (420, 420), (470, 440), 
       (300, 450), (350, 470), (360, 450), (410, 470), (420, 450), (470, 470), (10, 500), (40, 
       530), (10, 540), (40, 570), (10, 580), (40, 610), (10, 620), (40, 650), (10, 660), (40, 
       690), (10, 700), (40, 730), (100, 800), (200, 830), (100, 840), (200, 870), (210, 805), 
       (230, 825), (235, 805), (255, 825)] 1920 = Inr cd
      \<and> map_option length (ultimate_slots_coords cd) = Some 12
      \<and> map_option length (standard_slots_coords cd) = Some 36
      \<and> map_option length (models_coords cd) = Some 12
      \<and> map_option length (heroes_coords cd) = Some 10
      \<and> map_option length (selected_abilities_coords cd) = Some 40"
  (is "\<exists>cd. calculate_coordinates_from_clicks ?pts 1920 = Inr cd \<and> ?P cd")
proof -
  note t = count_invariant_within_double_range[of ?pts 1920]
  have "length ?pts = 68 \<and> \<bar>1920 :: int\<bar> \<le> 2 ^ 49 \<and> (\<forall>p \<in> set ?pts. \<bar>fst p\<bar> \<le> 2 ^ 49)"
    by simp
  with t obtain cd where cd: "calculate_coordinates_from_clicks ?pts 1920 = Inr cd"
    by blast
  with t have "?P cd" by blast
  with cd show ?thesis by blast
qed

text \<open>
  Without the bound on the screen width there need not be a result: \<open>screen_width / 2\<close>
  is a float division, and for a screen width of \<open>2^1025\<close> it raises OverflowError.
\<close>

theorem count_invariant_overflow_counterexample:
  "calculate_coordinates_from_clicks (replicate 68 (0, 0)) (2 ^ 1025) = Inl OverflowError"
proof (rule calculate_overflow)
  show "length (replicate 68 (0::int, 0::int)) = 68" by simp
  show "int_truediv (2 ^ 1025) 2 = Inl OverflowError" by (rule int_truediv_overflow)
qed

section \<open>Negative dimensions\<close>

lemma upt18: "[0..<18] = [0, 1, 2, 3, 4, 5, 6, 7, 8, 9, 10, 11, 12, 13, 14, 15, 16, 17]"
  by (simp add: upt_rec)

lemma negative_params_in_item:
  "NegativeCoordinates c i \<in> set (params_item_errors cat ps sw sh (k, item)) \<longleftrightarrow>
     c = cat \<and> i = k \<and> (x item < 0 \<or> y item < 0)"
  by (auto simp: params_item_errors_def)

lemma negative_params_notin_dims:
  "NegativeCoordinates c i \<notin> set (dims_category_errors cd sw sh cat)"
  unfolding in_dims_category_errors by (auto simp: dims_item_errors_def)

lemma negative_params_error_dims:
  assumes "c \<in> set categories_with_dims"
  shows "NegativeCoordinates c i \<notin> set (errors (validate_coordinates cd sw sh))"
proof
  assume a: "NegativeCoordinates c i \<in> set (errors (validate_coordinates cd sw sh))"
  have n: "\<not> (\<exists>ce \<in> set expected_counts. NegativeCoordinates c i \<in> set (count_errors cd ce))"
    using count_errors_cases by blast
  from a n negative_params_notin_dims obtain cat key where
    ck: "(cat, key) \<in> set categories_with_params"
    and "NegativeCoordinates c i \<in> set (params_category_errors cd sw sh (cat, key))"
    unfolding errors_validate in_all_errors by auto
  then have "c = cat"
    unfolding in_params_category_errors negative_params_in_item by blast
  with ck dims_not_params[OF assms] show False by blast
qed

lemma negative_error_dims:
  assumes "c \<in> set categories_with_dims" and "regions_of cd c = Some items"
    and "i < length items"
  shows "NegativeCoordinatesXY c i px py \<in> set (errors (validate_coordinates cd sw sh)) \<longleftrightarrow>
     px = x (items ! i) \<and> py = y (items ! i) \<and> (x (items ! i) < 0 \<or> y (items ! i) < 0)"
  unfolding negative_error_iff using assms by simp

text \<open>
  C6 (amended). The corner conversions subtract without clamping, so reversed corners give
  a negative width or height; the region keeps it, and so does its mirror image in a
  category that stores sizes per region. Validation does not look at the sign of a
  dimension: a region of such a category has an entry in the report exactly when \<open>x < 0\<close>,
  \<open>y < 0\<close>, \<open>x + width\<close> exceeds the screen width or \<open>y + height\<close> exceeds the screen
  height.
\<close>

theorem negative_dimensions_not_validated:
  "rect_width (calculate_from_bottom_left_top_right bl tr) = fst tr - fst bl
   \<and> rect_height (calculate_from_bottom_left_top_right bl tr) = snd bl - snd tr
   \<and> rect_width (calculate_from_top_left_bottom_right tlc br) = fst br - fst tlc
   \<and> rect_height (calculate_from_top_left_bottom_right tlc br) = snd br - snd tlc
   \<and> width (Coord_of r) = Some (rect_width r) \<and> height (Coord_of r) = Some (rect_height r)
   \<and> (\<forall>right_elements k.
         mirror_elements_to_right left_elements screen_width element_type True ew eh
           = Inr right_elements
         \<longrightarrow> k < length left_elements
         \<longrightarrow> width (right_elements ! k) = width (left_elements ! k)
             \<and> height (right_elements ! k) = height (left_elements ! k))
   \<and> (category \<in> set categories_with_dims \<longrightarrow> regions_of cd category = Some items
        \<longrightarrow> i < length items
        \<longrightarrow> width (items ! i) = Some w \<longrightarrow> height (items ! i) = Some h
        \<longrightarrow> (((\<exists>px py. NegativeCoordinatesXY category i px py
                      \<in> set (errors (validate_coordinates cd sw sh)))
              \<or> NegativeCoordinates category i \<in> set (errors (validate_coordinates cd sw sh))
              \<or> (\<exists>ho. ExtendsBeyondWidth category i ho
                      \<in> set (errors (validate_coordinates cd sw sh)))
              \<or> (\<exists>ho. ExtendsBeyondHeight category i ho
                      \<in> set (errors (validate_coordinates cd sw sh))))
            \<longleftrightarrow> (x (items ! i) < 0 \<or> y (items ! i) < 0 \<or> x (items ! i) + w > sw
                  \<or> y (items ! i) + h > sh)))"
proof (intro conjI allI impI)
  show "rect_width (calculate_from_bottom_left_top_right bl tr) = fst tr - fst bl"
    "rect_height (calculate_from_bottom_left_top_right bl tr) = snd bl - snd tr"
    by (simp_all add: calculate_from_bottom_left_top_right_def)
  show "rect_width (calculate_from_top_left_bottom_right tlc br) = fst br - fst tlc"
    "rect_height (calculate_from_top_left_bottom_right tlc br) = snd br - snd tlc"
    by (simp_all add: calculate_from_top_left_bottom_right_def)
  show "width (Coord_of r) = Some (rect_width r)" "height (Coord_of r) = Some (rect_height r)"
    by (simp_all add: Coord_of_def)
next
  fix right_elements k
  assume m: "mirror_elements_to_right left_elements screen_width element_type True ew eh
           = Inr right_elements" and k: "k < length left_elements"
  note e = mirror_elements_nth[OF m k]
  show "width (right_elements ! k) = width (left_elements ! k)"
    using mirror_element_Inr(2)[OF e] by simp
  show "height (right_elements ! k) = height (left_elements ! k)"
    using mirror_element_Inr(3)[OF e] by simp
next
  assume c: "category \<in> set categories_with_dims" and r: "regions_of cd category = Some items"
    and i: "i < length items" and w: "width (items ! i) = Some w"
    and h: "height (items ! i) = Some h"
  show "((\<exists>px py. NegativeCoordinatesXY category i px py
                      \<in> set (errors (validate_coordinates cd sw sh)))
              \<or> NegativeCoordinates category i \<in> set (errors (validate_coordinates cd sw sh))
              \<or> (\<exists>ho. ExtendsBeyondWidth category i ho
                      \<in> set (errors (validate_coordinates cd sw sh)))
              \<or> (\<exists>ho. ExtendsBeyondHeight category i ho
                      \<in> set (errors (validate_coordinates cd sw sh))))
            \<longleftrightarrow> (x (items ! i) < 0 \<or> y (items ! i) < 0 \<or> x (items ! i) + w > sw
                  \<or> y (items ! i) + h > sh)"
    unfolding negative_error_dims[OF c r i] width_error_dims[OF c r i]
      height_error_dims[OF c r i]
    using negative_params_error_dims[OF c] w h by auto
qed

theorem negative_dimensions_witness:
  "NegativeCoordinatesXY ''ultimate_slots_coords'' 0 150 100
     \<notin> set (errors (validate_coordinates
         \<lparr>heroes_params = None, selected_abilities_params = None,
          ultimate_slots_coords =
            Some [Coord_of (calculate_from_bottom_left_top_right (150, 120) (100, 100))],
          standard_slots_coords = None, models_coords = None, heroes_coords = None,
          selected_abilities_coords = None\<rparr> 1920 1080))
   \<and> ExtendsBeyondWidth ''ultimate_slots_coords'' 0 None
     \<notin> set (errors (validate_coordinates
         \<lparr>heroes_params = None, selected_abilities_params = None,
          ultimate_slots_coords =
            Some [Coord_of (calculate_from_bottom_left_top_right (150, 120) (100, 100))],
          standard_slots_coords = None, models_coords = None, heroes_coords = None,
          selected_abilities_coords = None\<rparr> 1920 1080))
   \<and> width (Coord_of (calculate_from_bottom_left_top_right (150, 120) (100, 100))) = Some (- 50)"
proof -
  let ?item = "Coord_of (calculate_from_bottom_left_top_right (150, 120) (100, 100))"
  let ?cd = "\<lparr>heroes_params = None, selected_abilities_params = None,
          ultimate_slots_coords = Some [?item],
          standard_slots_coords = None, models_coords = None, heroes_coords = None,
          selected_abilities_coords = None\<rparr>"
  note t = negative_dimensions_not_validated[where bl = "(150, 120)" and tr = "(100, 100)"
      and r = "calculate_from_bottom_left_top_right (150, 120) (100, 100)"
      and category = "''ultimate_slots_coords''" and cd = ?cd and items = "[?item]" and i = 0
      and w = "- 50" and h = 20 and sw = 1920 and sh = 1080]
  have wd: "width (Coord_of (calculate_from_bottom_left_top_right (150, 120) (100, 100)))
      = Some (- 50)"
    using t by simp
  have c: "''ultimate_slots_coords'' \<in> set categories_with_dims"
    by (simp add: categories_with_dims_def)
  have r: "regions_of ?cd ''ultimate_slots_coords'' = Some [?item]"
    by (simp add: regions_of_def)
  have i: "0 < length [?item]" by simp
  have w: "width ([?item] ! 0) = Some (- 50)" using wd by simp
  have h: "height ([?item] ! 0) = Some 20"
    by (simp add: Coord_of_def calculate_from_bottom_left_top_right_def)
  have xy: "\<not> (x ([?item] ! 0) < 0 \<or> y ([?item] ! 0) < 0 \<or> x ([?item] ! 0) + - 50 > 1920
                  \<or> y ([?item] ! 0) + 20 > 1080)"
    by (simp add: Coord_of_def calculate_from_bottom_left_top_right_def)
  from t[THEN conjunct2, THEN conjunct2, THEN conjunct2, THEN conjunct2, THEN conjunct2,
      THEN conjunct2, THEN conjunct2, rule_format, OF c r i w h] xy
  have "\<not> ((\<exists>px py. NegativeCoordinatesXY ''ultimate_slots_coords'' 0 px py
                      \<in> set (errors (validate_coordinates ?cd 1920 1080)))
              \<or> NegativeCoordinates ''ultimate_slots_coords'' 0
                      \<in> set (errors (validate_coordinates ?cd 1920 1080))
              \<or> (\<exists>ho. ExtendsBeyondWidth ''ultimate_slots_coords'' 0 ho
                      \<in> set (errors (validate_coordinates ?cd 1920 1080)))
              \<or> (\<exists>ho. ExtendsBeyondHeight ''ultimate_slots_coords'' 0 ho
                      \<in> set (errors (validate_coordinates ?cd 1920 1080))))"
    by blast
  then show ?thesis using wd by blast
qed

text \<open>
  A run of the whole pipeline on 68 points of which the first rectangle has its corners
  reversed (bottom-right, then top-left): the first ultimate slot has width \<open>-50\<close>, and
  validation on a 1920 by 1080 screen passes with no error at all.
\<close>

theorem negative_width_counterexample:
  "rect_width (calculate_from_bottom_left_top_right (150, 120) (100, 100)) = - 50
   \<and> \<not> isl (calculate_coordinates_from_clicks
       [(150, 120), (100, 100), (160, 120), (210, 100), (220, 120), (270, 100), (100, 150), 
       (150, 130), (160, 150), (210, 130), (220, 150), (270, 130), (300, 300), (350, 320), 
       (360, 300), (410, 320), (420, 300), (470, 320), (300, 330), (350, 350), (360, 330), 
       (410, 350), (420, 330), (470, 350), (300, 360), (350, 380), (360, 360), (410, 380), 
       (420, 360), (470, 380), (300, 390), (350, 410), (360, 390), (410, 410), (420, 390), 
       (470, 410), (300, 420), (350, 440), (360, 420), (410, 440), (420, 420), (470, 440), 
       (300, 450), (350, 470), (360, 450), (410, 470), (420, 450), (470, 470), (10, 500), (40, 
       530), (10, 540), (40, 570), (10, 580), (40, 610), (10, 620), (40, 650), (10, 660), (40, 
       690), (10, 700), (40, 730), (100, 800), (200, 830), (100, 840), (200, 870), (210, 805), 
       (230, 825), (235, 805), (255, 825)] 1920)
   \<and> width (the (ultimate_slots_coords (projr (calculate_coordinates_from_clicks
       [(150, 120), (100, 100), (160, 120), (210, 100), (220, 120), (270, 100), (100, 150), 
       (150, 130), (160, 150), (210, 130), (220, 150), (270, 130), (300, 300), (350, 320), 
       (360, 300), (410, 320), (420, 300), (470, 320), (300, 330), (350, 350), (360, 330), 
       (410, 350), (420, 330), (470, 350), (300, 360), (350, 380), (360, 360), (410, 380), 
       (420, 360), (470, 380), (300, 390), (350, 410), (360, 390), (410, 410), (420, 390), 
       (470, 410), (300, 420), (350, 440), (360, 420), (410, 440), (420, 420), (470, 440), 
       (300, 450), (350, 470), (360, 450), (410, 470), (420, 450), (470, 470), (10, 500), (40, 
       530), (10, 540), (40, 570), (10, 580), (40, 610), (10, 620), (40, 650), (10, 660), (40, 
       690), (10, 700), (40, 730), (100, 800), (200, 830), (100, 840), (200, 870), (210, 805), 
       (230, 825), (235, 805), (255, 825)] 1920))) ! 0) = Some (- 50)
   \<and> validate_coordinates (projr (calculate_coordinates_from_clicks
       [(150, 120), (100, 100), (160, 120), (210, 100), (220, 120), (270, 100), (100, 150), 
       (150, 130), (160, 150), (210, 130), (220, 150), (270, 130), (300, 300), (350, 320), 
       (360, 300), (410, 320), (420, 300), (470, 320), (300, 330), (350, 350), (360, 330), 
       (410, 350), (420, 330), (470, 350), (300, 360), (350, 380), (360, 360), (410, 380), 
       (420, 360), (470, 380), (300, 390), (350, 410), (360, 390), (410, 410), (420, 390), 
       (470, 410), (300, 420), (350, 440), (360, 420), (410, 440), (420, 420), (470, 440), 
       (300, 450), (350, 470), (360, 450), (410, 470), (420, 450), (470, 470), (10, 500), (40, 
       530), (10, 540), (40, 570), (10, 580), (40, 610), (10, 620), (40, 650), (10, 660), (40, 
       690), (10, 700), (40, 730), (100, 800), (200, 830), (100, 840), (200, 870), (210, 805), 
       (230, 825), (235, 805), (255, 825)] 1920)) 1920 1080
     = \<lparr>passed = True, errors = [], warnings = []\<rparr>"
  by (simp add: calculate_coordinates_from_clicks_def parse_slots_ok upt6 upt18 upt4 upt3
      get_point_def Coord_of_def calculate_from_bottom_left_top_right_def
      calculate_from_top_left_bottom_right_def generate_heroes_def calculate_hero_spacing_def
      generate_selected_abilities_def calculate_ability_spacing_def
      apply_ultimate_hero_orders_def apply_standard_18 enumerate_eq_zip
      mirror_elements_to_right_def mirror_element_def hero_order_offset_def
      mirror_coordinate_exact to_dict_def
      validate_coordinates_closed_form all_errors_def categories_with_dims_def
      categories_with_params_def expected_counts_def dims_category_errors_def
      params_category_errors_def count_errors_def regions_of_def params_of_def
      dims_item_errors_def params_item_errors_def Let_def)

end
